theory Spec2Isabelle
  imports Main "HOL-Library.Sublist" "HOL-Library.AList"
begin

section \<open>Python strings\<close>

text \<open>
  A Python \<open>str\<close> is a sequence of Unicode code points, so a string is a list of
  natural numbers and \<open>length\<close> counts code points. \<open>ustr\<close> turns an ASCII literal
  into such a list; the e-acute of the label "Prenom" is the code point 233.
\<close>

type_synonym pstr = "nat list"

definition ustr :: "string \<Rightarrow> pstr" where
  "ustr s = map of_char s"

text \<open>
  The characters removed by \<open>str.strip()\<close> and separating the tokens of \<open>str.split()\<close>:
  the code points for which CPython's \<open>str.isspace\<close> holds.
\<close>

definition isspace_cp :: "nat \<Rightarrow> bool" where
  "isspace_cp c \<longleftrightarrow>
     (9 \<le> c \<and> c \<le> 13) \<or> (28 \<le> c \<and> c \<le> 32) \<or> c = 133 \<or> c = 160 \<or> c = 5760 \<or>
     (8192 \<le> c \<and> c \<le> 8202) \<or> c = 8232 \<or> c = 8233 \<or> c = 8239 \<or> c = 8287 \<or> c = 12288"

text \<open>\<open>s.strip()\<close>\<close>

definition strip :: "pstr \<Rightarrow> pstr" where
  "strip s = rev (dropWhile isspace_cp (rev (dropWhile isspace_cp s)))"

text \<open>\<open>s.replace(c, new)\<close> for a pattern \<open>c\<close> of one character.\<close>

definition replace1 :: "nat \<Rightarrow> pstr \<Rightarrow> pstr \<Rightarrow> pstr" where
  "replace1 c new s = concat (map (\<lambda>x. if x = c then new else [x]) s)"

text \<open>\<open>sub in s\<close>: \<open>sub\<close> occurs in \<open>s\<close> as a contiguous substring.\<close>

fun contains :: "pstr \<Rightarrow> pstr \<Rightarrow> bool" where
  "contains sub [] = (sub = [])"
| "contains sub (c # cs) = (prefix sub (c # cs) \<or> contains sub cs)"

text \<open>
  \<open>s.split(sep)\<close> for a non-empty separator: the segments between the occurrences of
  \<open>sep\<close>, found from the left without overlap. \<open>cur\<close> is the segment being read.
\<close>

function split_on :: "pstr \<Rightarrow> pstr \<Rightarrow> pstr \<Rightarrow> pstr list" where
  "split_on sep cur [] = [cur]"
| "split_on sep cur (c # cs) =
     (if sep \<noteq> [] \<and> prefix sep (c # cs)
      then cur # split_on sep [] (drop (length sep) (c # cs))
      else split_on sep (cur @ [c]) cs)"
  by pat_completeness auto
termination
  by (relation "measure (\<lambda>(sep, cur, s). length s)") auto

text \<open>\<open>s.split()\<close>: the maximal runs of non-whitespace characters.\<close>

fun split_ws :: "pstr \<Rightarrow> pstr \<Rightarrow> pstr list" where
  "split_ws cur [] = (if cur = [] then [] else [cur])"
| "split_ws cur (c # cs) =
     (if isspace_cp c then (if cur = [] then [] else [cur]) @ split_ws [] cs
      else split_ws (cur @ [c]) cs)"

text \<open>
  The exceptions of the model. \<open>ValueError\<close> and \<open>IndexError\<close> are raised by the string
  and list operations; \<open>OcrFailure\<close> stands for the exceptions of the OCR library and
  \<open>OSError\<close> for those of writing to the standard output, all of them instances of
  \<open>Exception\<close>. \<open>KeyboardInterrupt\<close> and \<open>SystemExit\<close> derive from \<open>BaseException\<close>
  only; the model lets them arise where the program waits for something outside it, in
  the OCR engine and in \<open>print\<close>.
\<close>

datatype py_error = ValueError | IndexError | OSError | OcrFailure | KeyboardInterrupt | SystemExit

text \<open>\<open>isinstance(e, Exception)\<close>: what a clause \<open>except Exception\<close> catches.\<close>

definition is_exception :: "py_error \<Rightarrow> bool" where
  "is_exception e =
     (case e of KeyboardInterrupt \<Rightarrow> False | SystemExit \<Rightarrow> False | _ \<Rightarrow> True)"

text \<open>\<open>s.split(sep)\<close> raises \<open>ValueError\<close> on an empty separator.\<close>

definition py_split :: "pstr \<Rightarrow> pstr \<Rightarrow> py_error + pstr list" where
  "py_split sep s = (if sep = [] then Inl ValueError else Inr (split_on sep [] s))"

text \<open>\<open>xs[i]\<close> for \<open>i \<ge> 0\<close>, and \<open>xs[-1]\<close>: out of range raises \<open>IndexError\<close>.\<close>

definition py_index :: "'a list \<Rightarrow> nat \<Rightarrow> py_error + 'a" where
  "py_index xs i = (if i < length xs then Inr (xs ! i) else Inl IndexError)"

definition py_last :: "'a list \<Rightarrow> py_error + 'a" where
  "py_last xs = (if xs = [] then Inl IndexError else Inr (last xs))"

section \<open>Value normalizer\<close>

definition normalize_value :: "pstr \<Rightarrow> pstr" where
  "normalize_value v = strip (replace1 58 [] v)"

section \<open>Raw field maps and the labels\<close>

text \<open>
  A RawFieldMap is a Python \<open>dict\<close> from label to raw value. It is an association list
  in insertion order: \<open>AList.update\<close> overwrites the value of a key that is there and
  appends a new key, as assignment to a \<open>dict\<close> entry does; \<open>map_of\<close> looks a key up;
  the dict is falsy exactly when the list is empty.
\<close>

type_synonym raw_field_map = "(pstr \<times> pstr) list"

definition kw_prenom :: pstr where
  "kw_prenom = ustr ''Pr'' @ [233] @ ustr ''nom''"

definition kw_nom :: pstr where
  "kw_nom = ustr ''Nom''"

definition kw_candidat :: pstr where
  "kw_candidat = ustr ''Le candidat(e)''"

definition "keywords" :: "pstr list" where
  "keywords = [kw_prenom, kw_nom, kw_candidat]"

section \<open>Name formatter\<close>

definition reformat_name :: "raw_field_map \<Rightarrow> pstr option" where
  "reformat_name name_info =
     (if map_of name_info kw_prenom \<noteq> None \<and> map_of name_info kw_nom \<noteq> None
      then (case (map_of name_info kw_prenom, map_of name_info kw_nom) of
              (Some p, Some n) \<Rightarrow> Some (normalize_value p @ [32] @ normalize_value n)
            | _ \<Rightarrow> None)
      else (case map_of name_info kw_candidat of
              Some c \<Rightarrow>
                (let full_name = normalize_value c;
                     parts = split_ws [] full_name
                 in if length parts = 2 then Some (parts ! 1 @ [32] @ parts ! 0)
                    else Some full_name)
            | None \<Rightarrow> None))"

section \<open>Keyword line extractor\<close>

text \<open>
  The inner loop of \<open>extract_names\<close> over the keywords, for one line: the first keyword
  found in the line records the text after its last occurrence, and the loop breaks.
\<close>

fun scan_keywords :: "pstr \<Rightarrow> pstr list \<Rightarrow> raw_field_map \<Rightarrow> py_error + raw_field_map" where
  "scan_keywords line [] name_info = Inr name_info"
| "scan_keywords line (keyword # ks) name_info =
     (if contains keyword line
      then (case py_split keyword line of
              Inl e \<Rightarrow> Inl e
            | Inr parts \<Rightarrow>
                (case py_last parts of
                   Inl e \<Rightarrow> Inl e
                 | Inr v \<Rightarrow> Inr (AList.update keyword (strip v) name_info)))
      else scan_keywords line ks name_info)"

text \<open>The outer loop over the lines.\<close>

fun scan_lines :: "pstr list \<Rightarrow> pstr list \<Rightarrow> raw_field_map \<Rightarrow> py_error + raw_field_map" where
  "scan_lines [] ks name_info = Inr name_info"
| "scan_lines (line # ls) ks name_info =
     (case scan_keywords line ks name_info of
        Inl e \<Rightarrow> Inl e
      | Inr name_info' \<Rightarrow> scan_lines ls ks name_info')"

definition extract_names :: "pstr \<Rightarrow> pstr list \<Rightarrow> py_error + raw_field_map" where
  "extract_names text ks = scan_lines (split_on [10] [] text) ks []"

section \<open>The OCR result and the capitalized-token extractor\<close>

text \<open>
  The OCR engine, the standard output and the Unicode tables behind \<open>str.lower\<close> and
  \<open>str.isupper\<close> are outside the repository. They are parameters of the model:
  \<open>run_ocr\<close> gives, for an image path, the rendered transcript and the token structure,
  or the exception that loading or recognizing the image raised; \<open>print_error\<close> gives, for
  the \<open>print\<close> of the handler in \<open>process_image\<close>, the exception it raised, or \<open>None\<close>
  when it returned.
\<close>

datatype ocr_word = Word (word_value: pstr)
datatype ocr_line = Line (words: "ocr_word list")
datatype ocr_block = Block (lines: "ocr_line list")
datatype ocr_page = Page (blocks: "ocr_block list")
datatype ocr_result = Document (pages: "ocr_page list")

record externals =
  str_lower :: "pstr \<Rightarrow> pstr"
  str_isupper :: "pstr \<Rightarrow> bool"
  run_ocr :: "pstr \<Rightarrow> py_error + (pstr \<times> ocr_result)"
  print_error :: "pstr \<Rightarrow> py_error \<Rightarrow> py_error option"

definition extract_capital_words :: "externals \<Rightarrow> ocr_result \<Rightarrow> pstr list" where
  "extract_capital_words X result =
     [word_value w.
        page \<leftarrow> pages result, block \<leftarrow> blocks page, line \<leftarrow> lines block, w \<leftarrow> words line,
        str_isupper X (word_value w) \<and> 2 < length (word_value w)]"

section \<open>Single-image name resolver\<close>

text \<open>
  The loop of the last fallback over \<open>enumerate(lines)\<close>: \<open>rest\<close> holds the lines after
  the current one, so \<open>i + 1 < len(lines)\<close> is \<open>rest \<noteq> []\<close> and \<open>lines[i + 1]\<close> is its
  first element.
\<close>

fun colon_scan :: "externals \<Rightarrow> pstr list \<Rightarrow> raw_field_map \<Rightarrow> py_error + raw_field_map" where
  "colon_scan X [] name_info = Inr name_info"
| "colon_scan X (line # rest) name_info =
     (case (if contains [58] line
            then (let parts = split_on [58] [] line in
                  case py_index parts 0 of
                    Inl e \<Rightarrow> Inl e
                  | Inr p0 \<Rightarrow>
                      (let key = str_lower X (strip p0) in
                       case py_index parts 1 of
                         Inl e \<Rightarrow> Inl e
                       | Inr p1 \<Rightarrow>
                           (let v = strip p1 in
                            if contains (ustr ''nom'') key
                            then Inr (AList.update kw_nom v name_info)
                            else if contains (ustr ''pr'' @ [233] @ ustr ''nom'') key
                                    \<or> contains (ustr ''prenom'') key
                            then Inr (AList.update kw_prenom v name_info)
                            else Inr name_info)))
            else Inr name_info) of
        Inl e \<Rightarrow> Inl e
      | Inr name_info' \<Rightarrow>
          colon_scan X rest
            (case rest of
               [] \<Rightarrow> name_info'
             | nxt # _ \<Rightarrow>
                 if contains (ustr ''candidat'') (str_lower X line)
                 then AList.update kw_candidat (strip nxt) name_info'
                 else name_info'))"

text \<open>The rest of the \<open>try\<close> block, after the OCR engine has returned.\<close>

definition process_image_body ::
  "externals \<Rightarrow> pstr \<Rightarrow> ocr_result \<Rightarrow> py_error + raw_field_map option" where
  "process_image_body X extracted_text result =
     (case extract_names extracted_text keywords of
        Inl e \<Rightarrow> Inl e
      | Inr name_info \<Rightarrow>
          if name_info \<noteq> [] then Inr (Some name_info)
          else (let capital_words = extract_capital_words X result in
                if 7 \<le> length capital_words
                then (case py_index capital_words 5 of
                        Inl e \<Rightarrow> Inl e
                      | Inr w5 \<Rightarrow>
                          (case py_index capital_words 6 of
                             Inl e \<Rightarrow> Inl e
                           | Inr w6 \<Rightarrow> Inr (Some [(kw_prenom, w5), (kw_nom, w6)])))
                else (case colon_scan X (split_on [10] [] extracted_text) name_info of
                        Inl e \<Rightarrow> Inl e
                      | Inr name_info' \<Rightarrow>
                          if name_info' \<noteq> [] then Inr (Some name_info') else Inr None)))"

text \<open>The \<open>try\<close> block: the three calls of the OCR engine, then the body.\<close>

definition process_image_try ::
  "externals \<Rightarrow> pstr \<Rightarrow> py_error + raw_field_map option" where
  "process_image_try X image_path =
     (case run_ocr X image_path of
        Inl e \<Rightarrow> Inl e
      | Inr (extracted_text, result) \<Rightarrow> process_image_body X extracted_text result)"

text \<open>
  The whole function. \<open>Inl e\<close> is an exception that leaves the function: the clause
  \<open>except Exception\<close> catches the instances of \<open>Exception\<close> only, and what the
  \<open>print\<close> of the handler raises is not caught. After the handler the function returns
  \<open>None\<close>.
\<close>

definition process_image :: "externals \<Rightarrow> pstr \<Rightarrow> py_error + raw_field_map option" where
  "process_image X image_path =
     (case process_image_try X image_path of
        Inr names \<Rightarrow> Inr names
      | Inl e \<Rightarrow>
          if is_exception e
          then (case print_error X image_path e of
                  None \<Rightarrow> Inr None
                | Some e' \<Rightarrow> Inl e')
          else Inl e)"

section \<open>Folder verifier\<close>

text \<open>\<open>os.path.basename\<close>: what follows the last slash.\<close>

definition basename :: "pstr \<Rightarrow> pstr" where
  "basename p = rev (takeWhile (\<lambda>c. c \<noteq> 47) (rev p))"

text \<open>\<open>if formatted_name:\<close> holds for a string that is neither \<open>None\<close> nor empty.\<close>

definition truthy :: "pstr option \<Rightarrow> bool" where
  "truthy s = (case s of None \<Rightarrow> False | Some n \<Rightarrow> n \<noteq> [])"

text \<open>\<open>reformat_name(names) if names else None\<close>\<close>

definition format_names :: "raw_field_map option \<Rightarrow> pstr option" where
  "format_names names =
     (case names of
        None \<Rightarrow> None
      | Some name_info \<Rightarrow> if name_info = [] then None else reformat_name name_info)"

record file_detail =
  "file" :: pstr
  extracted_name :: "pstr option"
  raw_data :: "raw_field_map option"

record error_record =
  err_file :: pstr
  error :: pstr

record folder_result =
  cin :: pstr
  is_correct :: bool
  verified_name :: "pstr option"
  errors :: "error_record list"
  file_details :: "file_detail list"

definition no_name_msg :: pstr where
  "no_name_msg = ustr ''No name could be extracted''"

definition mismatch_msg :: "pstr \<Rightarrow> pstr" where
  "mismatch_msg n = ustr ''Name mismatch: found '' @ [39] @ n @ [39]"

text \<open>
  The loop of \<open>validate_folder\<close> over the images of one folder. An exception that
  leaves \<open>process_image\<close> leaves the loop.
\<close>

fun process_images ::
  "externals \<Rightarrow> pstr list \<Rightarrow> pstr list \<Rightarrow> file_detail list \<Rightarrow>
   py_error + (pstr list \<times> file_detail list)" where
  "process_images X [] names_acc details_acc = Inr (names_acc, details_acc)"
| "process_images X (image_path # ps) names_acc details_acc =
     (case process_image X image_path of
        Inl e \<Rightarrow> Inl e
      | Inr names \<Rightarrow>
          (let formatted_name = format_names names;
               details_acc' = details_acc @
                 [\<lparr>file = basename image_path, extracted_name = formatted_name,
                   raw_data = names\<rparr>]
           in if truthy formatted_name
              then (case formatted_name of
                      None \<Rightarrow> process_images X ps names_acc details_acc'
                    | Some n \<Rightarrow> process_images X ps (names_acc @ [n]) details_acc')
              else process_images X ps names_acc details_acc'))"

text \<open>The loop over \<open>file_details\<close> that builds the error records.\<close>

fun gen_errors ::
  "bool \<Rightarrow> pstr \<Rightarrow> file_detail list \<Rightarrow> error_record list \<Rightarrow> error_record list" where
  "gen_errors correct first_name [] errs = errs"
| "gen_errors correct first_name (detail # ds) errs =
     gen_errors correct first_name ds
       (if \<not> truthy (extracted_name detail)
        then errs @ [\<lparr>err_file = file detail, error = no_name_msg\<rparr>]
        else if \<not> correct \<and> extracted_name detail \<noteq> Some first_name
        then (case extracted_name detail of
                None \<Rightarrow> errs
              | Some n \<Rightarrow> errs @ [\<lparr>err_file = file detail, error = mismatch_msg n\<rparr>])
        else errs)"

text \<open>
  The body of the loop over the sub-folders: a folder without images is skipped
  (\<open>None\<close>), any other gives one result, unless an exception leaves the loop over its
  images.
\<close>

definition validate_subdir ::
  "externals \<Rightarrow> pstr \<Rightarrow> pstr list \<Rightarrow> py_error + folder_result option" where
  "validate_subdir X subdir image_paths =
     (if image_paths = [] then Inr None
      else (case process_images X image_paths [] [] of
              Inl e \<Rightarrow> Inl e
            | Inr (extracted_names, details) \<Rightarrow>
                (let c = (if contains [95] subdir then hd (split_on [95] [] subdir) else subdir)
                 in case extracted_names of
                      [] \<Rightarrow>
                        Inr (Some \<lparr>cin = c, is_correct = False, verified_name = None,
                                   errors = [], file_details = details\<rparr>)
                    | first_name # _ \<Rightarrow>
                        (let correct = list_all (\<lambda>name. name = first_name) extracted_names
                         in Inr (Some \<lparr>cin = c, is_correct = correct,
                                       verified_name = (if correct then Some first_name else None),
                                       errors = gen_errors correct first_name details [],
                                       file_details = details\<rparr>)))))"

text \<open>
  The loop over the sub-folders, which come with the image paths the three glob patterns
  found in them.
\<close>

fun validate_subdirs ::
  "externals \<Rightarrow> (pstr \<times> pstr list) list \<Rightarrow> folder_result list \<Rightarrow>
   py_error + folder_result list" where
  "validate_subdirs X [] results = Inr results"
| "validate_subdirs X ((subdir, image_paths) # rest) results =
     (case validate_subdir X subdir image_paths of
        Inl e \<Rightarrow> Inl e
      | Inr None \<Rightarrow> validate_subdirs X rest results
      | Inr (Some r) \<Rightarrow> validate_subdirs X rest (results @ [r]))"

text \<open>
  The route, from the extracted archive on: the results, or the message of an exception
  that its clause \<open>except Exception\<close> caught.
\<close>

datatype response = Results "folder_result list" | Error_message py_error

definition validate_folder ::
  "externals \<Rightarrow> (pstr \<times> pstr list) list \<Rightarrow> py_error + response" where
  "validate_folder X subdirs =
     (case validate_subdirs X subdirs [] of
        Inr results \<Rightarrow> Inr (Results results)
      | Inl e \<Rightarrow> if is_exception e then Inr (Error_message e) else Inl e)"

section \<open>Standalone batch comparison\<close>

record processed_file =
  pf_file :: pstr
  pf_extracted_name :: pstr

record student_result =
  sr_cin :: pstr
  sr_folder_name :: pstr
  sr_extracted_names :: "pstr list"
  sr_is_correct :: bool
  sr_verified_name :: "pstr option"
  sr_files_processed :: "processed_file list"

fun compare_images ::
  "externals \<Rightarrow> pstr list \<Rightarrow> student_result \<Rightarrow> py_error + student_result" where
  "compare_images X [] sr = Inr sr"
| "compare_images X (image_path # ps) sr =
     (case process_image X image_path of
        Inl e \<Rightarrow> Inl e
      | Inr None \<Rightarrow> compare_images X ps sr
      | Inr (Some names) \<Rightarrow>
          compare_images X ps
            (if names = [] then sr
             else (case reformat_name names of
                     None \<Rightarrow> sr
                   | Some formatted_name \<Rightarrow>
                       if formatted_name = [] then sr
                       else sr\<lparr>sr_extracted_names := sr_extracted_names sr @ [formatted_name],
                               sr_files_processed := sr_files_processed sr @
                                 [\<lparr>pf_file = basename image_path,
                                   pf_extracted_name = formatted_name\<rparr>]\<rparr>)))"

definition compare_subdir ::
  "externals \<Rightarrow> pstr \<Rightarrow> pstr list \<Rightarrow> py_error + student_result option" where
  "compare_subdir X subdir image_paths =
     (if image_paths = [] then Inr None
      else (case compare_images X image_paths
                  \<lparr>sr_cin = (if contains [95] subdir then hd (split_on [95] [] subdir)
                             else ustr ''Unknown''),
                   sr_folder_name = subdir, sr_extracted_names = [], sr_is_correct = False,
                   sr_verified_name = None, sr_files_processed = []\<rparr> of
              Inl e \<Rightarrow> Inl e
            | Inr sr \<Rightarrow>
                (case sr_extracted_names sr of
                   [] \<Rightarrow> Inr (Some sr)
                 | first_name # _ \<Rightarrow>
                     if list_all (\<lambda>name. name = first_name) (sr_extracted_names sr)
                     then Inr (Some (sr\<lparr>sr_is_correct := True,
                                         sr_verified_name := Some first_name\<rparr>))
                     else Inr (Some sr))))"

text \<open>The loop over the sub-folders; this function has no handler.\<close>

fun compare_subdirs ::
  "externals \<Rightarrow> (pstr \<times> pstr list) list \<Rightarrow> student_result list \<Rightarrow>
   py_error + student_result list" where
  "compare_subdirs X [] results = Inr results"
| "compare_subdirs X ((subdir, image_paths) # rest) results =
     (case compare_subdir X subdir image_paths of
        Inl e \<Rightarrow> Inl e
      | Inr None \<Rightarrow> compare_subdirs X rest results
      | Inr (Some sr) \<Rightarrow> compare_subdirs X rest (results @ [sr]))"

definition compare_names_in_folder ::
  "externals \<Rightarrow> (pstr \<times> pstr list) list \<Rightarrow> py_error + student_result list" where
  "compare_names_in_folder X subdirs = compare_subdirs X subdirs []"

section \<open>Vocabulary of the statements\<close>

text \<open>
  \<open>returns\<close>: the call of \<open>process_image\<close> on the image returns, no exception leaves
  it. \<open>raw_of\<close> is the RawFieldMap it returns and \<open>formatted_name_of\<close> what the folder
  verifier makes of it; both are absent when the call does not return.
\<close>

definition returns :: "externals \<Rightarrow> pstr \<Rightarrow> bool" where
  "returns X image_path =
     (case process_image X image_path of Inl e \<Rightarrow> False | Inr names \<Rightarrow> True)"

definition raw_of :: "externals \<Rightarrow> pstr \<Rightarrow> raw_field_map option" where
  "raw_of X image_path =
     (case process_image X image_path of Inl e \<Rightarrow> None | Inr names \<Rightarrow> names)"

definition formatted_name_of :: "externals \<Rightarrow> pstr \<Rightarrow> pstr option" where
  "formatted_name_of X image_path = format_names (raw_of X image_path)"

text \<open>
  The FormattedNames extracted from the images of a folder, in the order of the images:
  the results of \<open>formatted_name_of\<close> that are neither absent nor empty.
\<close>

definition names_of :: "externals \<Rightarrow> pstr list \<Rightarrow> pstr list" where
  "names_of X image_paths =
     filter (\<lambda>n. n \<noteq> []) (List.map_filter (formatted_name_of X) image_paths)"

text \<open>The error records that the loop of \<open>gen_errors\<close> adds for one image.\<close>

definition errors_for :: "externals \<Rightarrow> bool \<Rightarrow> pstr \<Rightarrow> pstr \<Rightarrow> error_record list" where
  "errors_for X c fn p =
     (case formatted_name_of X p of
        None \<Rightarrow> [\<lparr>err_file = basename p, error = no_name_msg\<rparr>]
      | Some n \<Rightarrow>
          if n = [] then [\<lparr>err_file = basename p, error = no_name_msg\<rparr>]
          else if \<not> c \<and> n \<noteq> fn then [\<lparr>err_file = basename p, error = mismatch_msg n\<rparr>]
          else [])"

section \<open>A concrete environment\<close>

text \<open>
  An environment to evaluate the model in. \<open>ascii_lower\<close> and \<open>ascii_isupper\<close> agree with
  \<open>str.lower\<close> and \<open>str.isupper\<close> on strings of ASCII characters, the only ones they are
  applied to below. The OCR engine of \<open>demo\<close> knows five images, is interrupted from the
  keyboard on a sixth and fails on any other; \<open>print\<close> always returns.
\<close>

definition ascii_lower :: "pstr \<Rightarrow> pstr" where
  "ascii_lower s = map (\<lambda>c. if 65 \<le> c \<and> c \<le> 90 then c + 32 else c) s"

definition ascii_isupper :: "pstr \<Rightarrow> bool" where
  "ascii_isupper s \<longleftrightarrow>
     list_ex (\<lambda>c. 65 \<le> c \<and> c \<le> 90) s \<and> \<not> list_ex (\<lambda>c. 97 \<le> c \<and> c \<le> 122) s"

definition demo_ocr :: "pstr \<Rightarrow> py_error + (pstr \<times> ocr_result)" where
  "demo_ocr p =
     (if p = ustr ''d/a.png'' then Inr (ustr ''Le candidat(e) Dupont Jean'', Document [])
      else if p = ustr ''d/b.png'' then Inr (ustr ''Le candidat(e): Dupont Jean'', Document [])
      else if p = ustr ''d/c.png'' then Inr (ustr ''Le candidat(e) Durand Eve'', Document [])
      else if p = ustr ''d/e.png'' then Inr (ustr ''prenom: Jean'', Document [])
      else if p = ustr ''d/f.png''
      then Inr (ustr ''ABC ab'',
                Document [Page [Block [Line [Word (ustr ''ABC''), Word (ustr ''ab''),
                                             Word (ustr ''DEF'')],
                                       Line [Word (ustr ''GHI''), Word (ustr ''JK'')]],
                                Block [Line [Word (ustr ''LMN''), Word (ustr ''OPQ''),
                                             Word (ustr ''DUPONT''), Word (ustr ''JEAN'')]]]])
      else if p = ustr ''d/k.png'' then Inl KeyboardInterrupt
      else Inl OcrFailure)"

definition demo :: externals where
  "demo = \<lparr>str_lower = ascii_lower, str_isupper = ascii_isupper, run_ocr = demo_ocr,
            print_error = (\<lambda>image_path e. None)\<rparr>"

section \<open>Properties of the string operations\<close>

lemma replace1_filter: "replace1 c [] s = filter (\<lambda>x. x \<noteq> c) s"
  by (induction s) (simp_all add: replace1_def)

lemma strip_subset: "set (strip s) \<subseteq> set s"
proof -
  have "set (strip s) \<subseteq> set (dropWhile isspace_cp s)"
    using set_dropWhileD [of _ isspace_cp "rev (dropWhile isspace_cp s)"]
    by (auto simp: strip_def)
  also have "\<dots> \<subseteq> set s"
    using set_dropWhileD [of _ isspace_cp s] by auto
  finally show ?thesis .
qed

lemma rstrip_head:
  assumes "rev (dropWhile P (rev ys)) = c # cs"
  shows "ys \<noteq> [] \<and> hd ys = c"
proof -
  have "ys = rev (dropWhile P (rev ys)) @ rev (takeWhile P (rev ys))"
    by (metis rev_append rev_rev_ident takeWhile_dropWhile_id)
  with assms have "ys = (c # cs) @ rev (takeWhile P (rev ys))" by simp
  then obtain zs where "ys = c # zs" by simp
  then show ?thesis by simp
qed

lemma dropWhile_rstrip:
  "dropWhile P (rev (dropWhile P (rev (dropWhile P xs)))) = rev (dropWhile P (rev (dropWhile P xs)))"
proof (cases "rev (dropWhile P (rev (dropWhile P xs)))")
  case Nil
  show ?thesis unfolding Nil by simp
next
  case (Cons c cs)
  then have "dropWhile P xs \<noteq> [] \<and> hd (dropWhile P xs) = c" by (rule rstrip_head)
  then have "\<not> P c" using hd_dropWhile [of P xs] by auto
  then show ?thesis unfolding Cons by simp
qed

lemma strip_idem: "strip (strip s) = strip s"
proof -
  have "strip (strip s) =
        rev (dropWhile isspace_cp (rev (rev (dropWhile isspace_cp (rev (dropWhile isspace_cp s))))))"
    unfolding strip_def dropWhile_rstrip ..
  also have "\<dots> = rev (dropWhile isspace_cp (dropWhile isspace_cp (rev (dropWhile isspace_cp s))))"
    by (simp only: rev_rev_ident)
  also have "\<dots> = strip s"
    by (simp only: dropWhile_idem strip_def)
  finally show ?thesis .
qed

lemma normalize_value_no_colon: "58 \<notin> set (normalize_value v)"
  using strip_subset [of "replace1 58 [] v"]
  by (auto simp: normalize_value_def replace1_filter)

section \<open>Properties of the folder loops\<close>

lemma names_of_Nil: "names_of X [] = []"
  by (simp add: names_of_def List.map_filter_simps)

lemma names_of_Cons:
  "names_of X (p # ps) =
     (case formatted_name_of X p of
        None \<Rightarrow> names_of X ps
      | Some n \<Rightarrow> if n = [] then names_of X ps else n # names_of X ps)"
  by (simp add: names_of_def List.map_filter_simps split: option.splits)

lemma returns_iff: "returns X p \<longleftrightarrow> process_image X p = Inr (raw_of X p)"
  by (simp add: returns_def raw_of_def split: sum.splits)

lemma process_images_eq:
  "list_all (returns X) ps \<Longrightarrow>
   process_images X ps ns ds =
     Inr (ns @ names_of X ps,
          ds @ map (\<lambda>p. \<lparr>file = basename p, extracted_name = formatted_name_of X p,
                          raw_data = raw_of X p\<rparr>) ps)"
proof (induction ps arbitrary: ns ds)
  case Nil
  show ?case by (simp add: names_of_Nil)
next
  case (Cons p ps)
  from Cons.prems have rp: "returns X p" and ps: "list_all (returns X) ps"
    by simp_all
  from rp have p: "process_image X p = Inr (raw_of X p)"
    by (simp only: returns_iff)
  have f: "format_names (raw_of X p) = formatted_name_of X p"
    by (simp add: formatted_name_of_def)
  show ?case
    by (cases "formatted_name_of X p")
       (simp_all add: p f Cons.IH [OF ps] names_of_Cons truthy_def Let_def)
qed

lemma process_images_returns:
  "process_images X ps ns ds = Inr res \<Longrightarrow> list_all (returns X) ps"
proof (induction ps arbitrary: ns ds)
  case Nil
  show ?case by simp
next
  case (Cons p ps)
  from Cons.prems obtain names where p: "process_image X p = Inr names"
    by (cases "process_image X p") simp_all
  then have r: "returns X p" by (simp add: returns_def)
  from Cons.prems p obtain ns' ds' where "process_images X ps ns' ds' = Inr res"
    by (auto simp: Let_def split: if_splits option.splits)
  then have "list_all (returns X) ps" by (rule Cons.IH)
  with r show ?case by simp
qed

lemma mismatch_not_no_name: "mismatch_msg n \<noteq> no_name_msg"
  by (simp add: mismatch_msg_def no_name_msg_def ustr_def)

lemma names_of_single:
  "names_of X [p] =
     (case formatted_name_of X p of None \<Rightarrow> [] | Some n \<Rightarrow> if n = [] then [] else [n])"
  by (simp add: names_of_Cons names_of_Nil split: option.splits)

lemma compare_images_eq:
  "list_all (returns X) ps \<Longrightarrow>
   compare_images X ps sr =
     Inr (sr\<lparr>sr_extracted_names := sr_extracted_names sr @ names_of X ps,
             sr_files_processed := sr_files_processed sr @
               concat (map (\<lambda>p. map (\<lambda>n. \<lparr>pf_file = basename p, pf_extracted_name = n\<rparr>)
                                   (names_of X [p])) ps)\<rparr>)"
proof (induction ps arbitrary: sr)
  case Nil
  show ?case by (simp add: names_of_Nil)
next
  case (Cons p ps)
  from Cons.prems have rp: "returns X p" and ps: "list_all (returns X) ps"
    by simp_all
  from rp have p: "process_image X p = Inr (raw_of X p)"
    by (simp only: returns_iff)
  show ?case
  proof (cases "raw_of X p")
    case None
    then show ?thesis
      using p by (simp add: Cons.IH [OF ps] names_of_Cons [of X p ps] names_of_single
                            formatted_name_of_def format_names_def)
  next
    case (Some names)
    then show ?thesis
      using p by (simp add: Cons.IH [OF ps] names_of_Cons [of X p ps] names_of_single
                            formatted_name_of_def format_names_def split: option.splits)
  qed
qed

lemma compare_images_returns:
  "compare_images X ps sr = Inr res \<Longrightarrow> list_all (returns X) ps"
proof (induction ps arbitrary: sr)
  case Nil
  show ?case by simp
next
  case (Cons p ps)
  from Cons.prems obtain names where p: "process_image X p = Inr names"
    by (cases "process_image X p") simp_all
  then have r: "returns X p" by (simp add: returns_def)
  from Cons.prems p obtain sr' where "compare_images X ps sr' = Inr res"
    by (cases names) auto
  then have "list_all (returns X) ps" by (rule Cons.IH)
  with r show ?case by simp
qed

lemma all_same_iff:
  "list_all (\<lambda>n. n = a) (a # xs) \<longleftrightarrow> (\<forall>x\<in>set (a # xs). \<forall>y\<in>set (a # xs). x = y)"
proof
  assume "list_all (\<lambda>n. n = a) (a # xs)"
  then have "\<forall>x\<in>set (a # xs). x = a" by (simp add: list_all_iff)
  then show "\<forall>x\<in>set (a # xs). \<forall>y\<in>set (a # xs). x = y" by metis
next
  assume "\<forall>x\<in>set (a # xs). \<forall>y\<in>set (a # xs). x = y"
  then have "\<forall>x\<in>set (a # xs). x = a" by (metis list.set_intros(1))
  then show "list_all (\<lambda>n. n = a) (a # xs)" by (simp add: list_all_iff)
qed

lemma all_same_set: "list_all (\<lambda>n. n = a) (a # xs) \<Longrightarrow> set (a # xs) = {a}"
  unfolding list_all_iff by auto

lemma validate_subdir_fields:
  assumes "image_paths \<noteq> []" and "list_all (returns X) image_paths"
  shows "\<exists>r. validate_subdir X subdir image_paths = Inr (Some r)
           \<and> is_correct r =
               (case names_of X image_paths of
                  [] \<Rightarrow> False
                | a # xs \<Rightarrow> list_all (\<lambda>n. n = a) (a # xs))
           \<and> verified_name r =
               (case names_of X image_paths of
                  [] \<Rightarrow> None
                | a # xs \<Rightarrow> if list_all (\<lambda>n. n = a) (a # xs) then Some a else None)
           \<and> errors r =
               (case names_of X image_paths of
                  [] \<Rightarrow> []
                | a # xs \<Rightarrow>
                    gen_errors (list_all (\<lambda>n. n = a) (a # xs)) a
                      (map (\<lambda>p. \<lparr>file = basename p, extracted_name = formatted_name_of X p,
                                      raw_data = raw_of X p\<rparr>) image_paths) [])"
  using assms(1)
  by (cases "names_of X image_paths")
     (simp_all add: validate_subdir_def process_images_eq [OF assms(2)] Let_def)

lemma validate_subdir_returns:
  assumes "validate_subdir X subdir image_paths = Inr (Some r)"
  shows "image_paths \<noteq> [] \<and> list_all (returns X) image_paths"
proof -
  from assms have ne: "image_paths \<noteq> []"
    by (auto simp: validate_subdir_def)
  with assms obtain res where "process_images X image_paths [] [] = Inr res"
    by (cases "process_images X image_paths [] []") (simp_all add: validate_subdir_def)
  then have "list_all (returns X) image_paths" by (rule process_images_returns)
  with ne show ?thesis by simp
qed

lemma compare_subdir_fields:
  assumes "image_paths \<noteq> []" and "list_all (returns X) image_paths"
  shows "\<exists>s. compare_subdir X subdir image_paths = Inr (Some s)
           \<and> sr_is_correct s =
               (case names_of X image_paths of
                  [] \<Rightarrow> False
                | a # xs \<Rightarrow> list_all (\<lambda>n. n = a) (a # xs))
           \<and> sr_verified_name s =
               (case names_of X image_paths of
                  [] \<Rightarrow> None
                | a # xs \<Rightarrow> if list_all (\<lambda>n. n = a) (a # xs) then Some a else None)
           \<and> sr_extracted_names s = names_of X image_paths
           \<and> sr_files_processed s =
               concat (map (\<lambda>p. map (\<lambda>n. \<lparr>pf_file = basename p, pf_extracted_name = n\<rparr>)
                                   (names_of X [p])) image_paths)"
  using assms(1)
  by (cases "names_of X image_paths")
     (simp_all add: compare_subdir_def compare_images_eq [OF assms(2)] Let_def)

lemma compare_subdir_returns:
  assumes "compare_subdir X subdir image_paths = Inr (Some s)"
  shows "image_paths \<noteq> [] \<and> list_all (returns X) image_paths"
proof -
  from assms have ne: "image_paths \<noteq> []"
    by (auto simp: compare_subdir_def)
  with assms obtain res where
    "compare_images X image_paths
       \<lparr>sr_cin = (if contains [95] subdir then hd (split_on [95] [] subdir)
                  else ustr ''Unknown''),
        sr_folder_name = subdir, sr_extracted_names = [], sr_is_correct = False,
        sr_verified_name = None, sr_files_processed = []\<rparr> = Inr res"
    by (simp add: compare_subdir_def split: sum.splits)
  then have "list_all (returns X) image_paths" by (rule compare_images_returns)
  with ne show ?thesis by simp
qed

lemma gen_errors_paths:
  "gen_errors c fn
     (map (\<lambda>p. \<lparr>file = basename p, extracted_name = formatted_name_of X p,
                 raw_data = raw_of X p\<rparr>) ps) errs =
   errs @ concat (map (errors_for X c fn) ps)"
proof (induction ps arbitrary: errs)
  case Nil
  show ?case by simp
next
  case (Cons p ps)
  show ?case
    by (cases "formatted_name_of X p") (simp_all add: Cons.IH errors_for_def truthy_def)
qed

lemma errors_of_paths:
  "gen_errors c fn
     (map (\<lambda>p. \<lparr>file = basename p, extracted_name = formatted_name_of X p,
                 raw_data = raw_of X p\<rparr>) ps) [] =
   concat (map (errors_for X c fn) ps)"
  by (simp add: gen_errors_paths)

lemma no_name_errors_for1:
  "filter (\<lambda>e. error e = no_name_msg) (errors_for X c fn p) =
     (if truthy (formatted_name_of X p) then []
      else [\<lparr>err_file = basename p, error = no_name_msg\<rparr>])"
  by (cases "formatted_name_of X p")
     (simp_all add: errors_for_def truthy_def mismatch_not_no_name)

lemma mismatch_errors_for1:
  "filter (\<lambda>e. error e \<noteq> no_name_msg) (errors_for X c fn p) =
     map (\<lambda>n. \<lparr>err_file = basename p, error = mismatch_msg n\<rparr>)
       (filter (\<lambda>n. \<not> c \<and> n \<noteq> fn) (names_of X [p]))"
  by (cases "formatted_name_of X p")
     (simp_all add: errors_for_def names_of_single mismatch_not_no_name)

lemma errors_for_truthy:
  "errors_for X c fn p =
     (if truthy (formatted_name_of X p)
      then filter (\<lambda>e. error e \<noteq> no_name_msg) (errors_for X c fn p)
      else [\<lparr>err_file = basename p, error = no_name_msg\<rparr>])"
  by (cases "formatted_name_of X p")
     (simp_all add: errors_for_def truthy_def mismatch_not_no_name)

lemma no_name_errors_for:
  "filter (\<lambda>e. error e = no_name_msg) (concat (map (errors_for X c fn) ps)) =
   map (\<lambda>p. \<lparr>err_file = basename p, error = no_name_msg\<rparr>)
     (filter (\<lambda>p. \<not> truthy (formatted_name_of X p)) ps)"
  by (induction ps) (simp_all add: no_name_errors_for1)

lemma mismatch_errors_for:
  "filter (\<lambda>e. error e \<noteq> no_name_msg) (concat (map (errors_for X c fn) ps)) =
   concat (map (\<lambda>p. map (\<lambda>n. \<lparr>err_file = basename p, error = mismatch_msg n\<rparr>)
                      (filter (\<lambda>n. \<not> c \<and> n \<noteq> fn) (names_of X [p]))) ps)"
  by (induction ps) (simp_all add: mismatch_errors_for1)

lemma names_of_filter_truthy:
  "names_of X (filter (\<lambda>p. truthy (formatted_name_of X p)) ps) = names_of X ps"
  by (induction ps) (auto simp: names_of_Nil names_of_Cons truthy_def split: option.splits)

lemma errors_for_filter_truthy:
  "concat (map (errors_for X c fn) (filter (\<lambda>p. truthy (formatted_name_of X p)) ps)) =
   filter (\<lambda>e. error e \<noteq> no_name_msg) (concat (map (errors_for X c fn) ps))"
proof (induction ps)
  case Nil
  show ?case by simp
next
  case (Cons p ps)
  show ?case
  proof (cases "truthy (formatted_name_of X p)")
    case True
    then have "errors_for X c fn p = filter (\<lambda>e. error e \<noteq> no_name_msg) (errors_for X c fn p)"
      using errors_for_truthy [of X c fn p] by simp
    with True Cons.IH show ?thesis by simp
  next
    case False
    then have "errors_for X c fn p = [\<lparr>err_file = basename p, error = no_name_msg\<rparr>]"
      using errors_for_truthy [of X c fn p] by simp
    with False Cons.IH show ?thesis by simp
  qed
qed

lemmas no_name_errors = no_name_errors_for [folded errors_of_paths]

lemmas mismatch_errors = mismatch_errors_for [folded errors_of_paths]

lemmas errors_filter_truthy = errors_for_filter_truthy [folded errors_of_paths]

lemma find_first_name:
  "find (\<lambda>p. names_of X [p] \<noteq> []) ps = Some p0 \<Longrightarrow>
   names_of X ps = a # xs \<Longrightarrow> names_of X [p0] = [a]"
proof (induction ps)
  case Nil
  then show ?case by simp
next
  case (Cons p ps)
  show ?case
  proof (cases "names_of X [p] = []")
    case True
    then have "names_of X (p # ps) = names_of X ps"
      by (simp add: names_of_Cons names_of_single split: option.splits if_splits)
    with Cons True show ?thesis by simp
  next
    case False
    with Cons.prems(1) have "p0 = p" by simp
    with False Cons.prems(2) show ?thesis
      by (auto simp: names_of_Cons [of X p ps] names_of_single split: option.splits if_splits)
  qed
qed

lemma validate_subdir_result:
  assumes "validate_subdir X subdir image_paths = Inr (Some r)"
  shows "is_correct r =
           (case names_of X image_paths of
              [] \<Rightarrow> False
            | a # xs \<Rightarrow> list_all (\<lambda>n. n = a) (a # xs))"
    and "verified_name r =
           (case names_of X image_paths of
              [] \<Rightarrow> None
            | a # xs \<Rightarrow> if list_all (\<lambda>n. n = a) (a # xs) then Some a else None)"
    and "errors r =
           (case names_of X image_paths of
              [] \<Rightarrow> []
            | a # xs \<Rightarrow>
                gen_errors (list_all (\<lambda>n. n = a) (a # xs)) a
                  (map (\<lambda>p. \<lparr>file = basename p, extracted_name = formatted_name_of X p,
                                  raw_data = raw_of X p\<rparr>) image_paths) [])"
proof -
  from validate_subdir_returns [OF assms]
  have ne: "image_paths \<noteq> []" and ret: "list_all (returns X) image_paths" by simp_all
  from validate_subdir_fields [OF ne ret, of subdir] assms
  show "is_correct r =
           (case names_of X image_paths of
              [] \<Rightarrow> False
            | a # xs \<Rightarrow> list_all (\<lambda>n. n = a) (a # xs))"
    and "verified_name r =
           (case names_of X image_paths of
              [] \<Rightarrow> None
            | a # xs \<Rightarrow> if list_all (\<lambda>n. n = a) (a # xs) then Some a else None)"
    and "errors r =
           (case names_of X image_paths of
              [] \<Rightarrow> []
            | a # xs \<Rightarrow>
                gen_errors (list_all (\<lambda>n. n = a) (a # xs)) a
                  (map (\<lambda>p. \<lparr>file = basename p, extracted_name = formatted_name_of X p,
                                  raw_data = raw_of X p\<rparr>) image_paths) [])"
    by auto
qed

lemma compare_subdir_result:
  assumes "compare_subdir X subdir image_paths = Inr (Some s)"
  shows "sr_is_correct s =
           (case names_of X image_paths of
              [] \<Rightarrow> False
            | a # xs \<Rightarrow> list_all (\<lambda>n. n = a) (a # xs))"
    and "sr_verified_name s =
           (case names_of X image_paths of
              [] \<Rightarrow> None
            | a # xs \<Rightarrow> if list_all (\<lambda>n. n = a) (a # xs) then Some a else None)"
    and "sr_extracted_names s = names_of X image_paths"
    and "sr_files_processed s =
           concat (map (\<lambda>p. map (\<lambda>n. \<lparr>pf_file = basename p, pf_extracted_name = n\<rparr>)
                               (names_of X [p])) image_paths)"
proof -
  from compare_subdir_returns [OF assms]
  have ne: "image_paths \<noteq> []" and ret: "list_all (returns X) image_paths" by simp_all
  from compare_subdir_fields [OF ne ret, of subdir] assms
  show "sr_is_correct s =
           (case names_of X image_paths of
              [] \<Rightarrow> False
            | a # xs \<Rightarrow> list_all (\<lambda>n. n = a) (a # xs))"
    and "sr_verified_name s =
           (case names_of X image_paths of
              [] \<Rightarrow> None
            | a # xs \<Rightarrow> if list_all (\<lambda>n. n = a) (a # xs) then Some a else None)"
    and "sr_extracted_names s = names_of X image_paths"
    and "sr_files_processed s =
           concat (map (\<lambda>p. map (\<lambda>n. \<lparr>pf_file = basename p, pf_extracted_name = n\<rparr>)
                               (names_of X [p])) image_paths)"
    by auto
qed

lemma all_identical_fields:
  assumes "c = (case names of [] \<Rightarrow> False | a # xs \<Rightarrow> list_all (\<lambda>n. n = a) (a # xs))"
    and "v = (case names of
                [] \<Rightarrow> None
              | a # xs \<Rightarrow> if list_all (\<lambda>n. n = a) (a # xs) then Some a else None)"
  shows "(c \<longleftrightarrow> names \<noteq> [] \<and> (\<forall>a\<in>set names. \<forall>b\<in>set names. a = b))
         \<and> (c \<longrightarrow> (\<exists>n. v = Some n \<and> set names = {n}))
         \<and> (\<not> c \<longrightarrow> v = None)"
proof (cases names)
  case Nil
  with assms show ?thesis by simp
next
  case (Cons a xs)
  with assms all_same_iff [of a xs] all_same_set [of a xs] show ?thesis by simp
qed

text \<open>
  When some image of the folder has a name, the records "No name could be extracted" are,
  in order, one for each image without a name; such images take no part in the baseline:
  removing them from the folder leaves \<open>is_correct\<close>, \<open>verified_name\<close> and the mismatch
  records as they are.
\<close>

lemma extraction_errors_when_some_name:
  assumes "validate_subdir X subdir image_paths = Inr (Some r)"
  shows "(names_of X image_paths \<noteq> [] \<longrightarrow>
            filter (\<lambda>e. error e = no_name_msg) (errors r) =
            map (\<lambda>p. \<lparr>err_file = basename p, error = no_name_msg\<rparr>)
              (filter (\<lambda>p. \<not> truthy (formatted_name_of X p)) image_paths))
         \<and> (\<forall>r'. validate_subdir X subdir
                    (filter (\<lambda>p. truthy (formatted_name_of X p)) image_paths) =
                  Inr (Some r') \<longrightarrow>
                  is_correct r' = is_correct r \<and> verified_name r' = verified_name r
                  \<and> errors r' = filter (\<lambda>e. error e \<noteq> no_name_msg) (errors r))"
proof -
  note rc = validate_subdir_result(1) [OF assms]
    and rv = validate_subdir_result(2) [OF assms]
    and re = validate_subdir_result(3) [OF assms]
  have c1: "names_of X image_paths \<noteq> [] \<longrightarrow>
            filter (\<lambda>e. error e = no_name_msg) (errors r) =
            map (\<lambda>p. \<lparr>err_file = basename p, error = no_name_msg\<rparr>)
              (filter (\<lambda>p. \<not> truthy (formatted_name_of X p)) image_paths)"
    using re by (cases "names_of X image_paths") (simp_all add: no_name_errors)
  have c3: "\<forall>r'. validate_subdir X subdir
                    (filter (\<lambda>p. truthy (formatted_name_of X p)) image_paths) =
                  Inr (Some r') \<longrightarrow>
                  is_correct r' = is_correct r \<and> verified_name r' = verified_name r
                  \<and> errors r' = filter (\<lambda>e. error e \<noteq> no_name_msg) (errors r)"
  proof (intro allI impI)
    fix r'
    let ?good = "filter (\<lambda>p. truthy (formatted_name_of X p)) image_paths"
    assume a: "validate_subdir X subdir ?good = Inr (Some r')"
    note validate_subdir_result [OF a, unfolded names_of_filter_truthy]
    with rc rv re
    show "is_correct r' = is_correct r \<and> verified_name r' = verified_name r
          \<and> errors r' = filter (\<lambda>e. error e \<noteq> no_name_msg) (errors r)"
      by (cases "names_of X image_paths") (simp_all add: errors_filter_truthy)
  qed
  from c1 c3 show ?thesis by blast
qed

section \<open>Properties of the capitalized-token extractor\<close>

lemma concat_map_flat:
  "concat (map (\<lambda>x. concat (map f (g x))) xs) = concat (map f (concat (map g xs)))"
  by (induction xs) simp_all

lemma extract_capital_words_filter:
  "extract_capital_words X result =
     filter (\<lambda>w. str_isupper X w \<and> 2 < length w)
       (map word_value
          (concat (map words (concat (map lines (concat (map blocks (pages result))))))))"
proof -
  let ?P = "\<lambda>w. str_isupper X w \<and> 2 < length w"
  let ?W = "\<lambda>w. if ?P (word_value w) then [word_value w] else []"
  let ?L = "\<lambda>line. concat (map ?W (words line))"
  let ?B = "\<lambda>block. concat (map ?L (lines block))"
  have cmi: "concat (map ?W ws) = filter ?P (map word_value ws)" for ws
    by (induction ws) simp_all
  have "extract_capital_words X result =
          concat (map (\<lambda>page. concat (map ?B (blocks page))) (pages result))"
    by (simp add: extract_capital_words_def)
  also have "\<dots> = concat (map ?B (concat (map blocks (pages result))))"
    by (rule concat_map_flat)
  also have "\<dots> = concat (map ?L (concat (map lines (concat (map blocks (pages result))))))"
    by (rule concat_map_flat)
  also have "\<dots> = concat (map ?W (concat (map words
                        (concat (map lines (concat (map blocks (pages result))))))))"
    by (rule concat_map_flat)
  also have "\<dots> = filter ?P (map word_value (concat (map words
                        (concat (map lines (concat (map blocks (pages result))))))))"
    by (rule cmi)
  finally show ?thesis .
qed

section \<open>Properties of the single-image resolver\<close>

text \<open>
  Parsing raises nothing: the keywords are not empty, \<open>split\<close> gives at least one
  segment, and at least two on a line that has a colon.
\<close>

lemma split_on_nonempty: "split_on sep cur s \<noteq> []"
  by (induction sep cur s rule: split_on.induct) auto

lemma contains_single: "contains [c] s \<longleftrightarrow> c \<in> set s"
  by (induction s) auto

lemma split_on_single_length: "c \<in> set s \<Longrightarrow> 2 \<le> length (split_on [c] cur s)"
proof (induction s arbitrary: cur)
  case Nil
  then show ?case by simp
next
  case (Cons x xs)
  show ?case
  proof (cases "x = c")
    case True
    have "split_on [c] [] xs \<noteq> []" by (rule split_on_nonempty)
    then have "1 \<le> length (split_on [c] [] xs)"
      by (cases "split_on [c] [] xs") simp_all
    with True show ?thesis by simp
  next
    case False
    with Cons.prems have "c \<in> set xs" by simp
    from Cons.IH [OF this, of "cur @ [x]"] False show ?thesis by simp
  qed
qed

lemma scan_keywords_ok:
  "[] \<notin> set ks \<Longrightarrow> \<exists>m'. scan_keywords line ks m = Inr m'"
  by (induction ks) (auto simp: py_split_def py_last_def split_on_nonempty)

lemma scan_lines_ok:
  "[] \<notin> set ks \<Longrightarrow> \<exists>m'. scan_lines ls ks m = Inr m'"
proof (induction ls arbitrary: m)
  case Nil
  show ?case by simp
next
  case (Cons l ls)
  from scan_keywords_ok [OF Cons.prems, of l m]
  obtain m1 where "scan_keywords l ks m = Inr m1" by blast
  with Cons.IH [OF Cons.prems, of m1] show ?case by simp
qed

lemma keywords_nonempty: "[] \<notin> set keywords"
  by (simp add: keywords_def kw_prenom_def kw_nom_def kw_candidat_def ustr_def)

lemma extract_names_ok: "\<exists>m. extract_names text keywords = Inr m"
  unfolding extract_names_def by (rule scan_lines_ok [OF keywords_nonempty])

lemma colon_line_ok:
  "\<exists>m'. (if contains [58] line
          then (let parts = split_on [58] [] line in
                case py_index parts 0 of
                  Inl e \<Rightarrow> Inl e
                | Inr p0 \<Rightarrow>
                    (let key = str_lower X (strip p0) in
                     case py_index parts 1 of
                       Inl e \<Rightarrow> Inl e
                     | Inr p1 \<Rightarrow>
                         (let v = strip p1 in
                          if contains (ustr ''nom'') key
                          then Inr (AList.update kw_nom v m)
                          else if contains (ustr ''pr'' @ [233] @ ustr ''nom'') key
                                  \<or> contains (ustr ''prenom'') key
                          then Inr (AList.update kw_prenom v m)
                          else Inr m)))
          else Inr m) = Inr m'"
proof (cases "contains [58] line")
  case True
  then have "2 \<le> length (split_on [58] [] line)"
    by (simp add: contains_single split_on_single_length)
  with True show ?thesis by (auto simp: py_index_def Let_def)
next
  case False
  then show ?thesis by simp
qed

lemma colon_scan_ok: "\<exists>m'. colon_scan X ls m = Inr m'"
proof (induction ls arbitrary: m)
  case Nil
  show ?case by simp
next
  case (Cons line rest)
  from colon_line_ok [of line X m] obtain m1 where
    "(if contains [58] line
          then (let parts = split_on [58] [] line in
                case py_index parts 0 of
                  Inl e \<Rightarrow> Inl e
                | Inr p0 \<Rightarrow>
                    (let key = str_lower X (strip p0) in
                     case py_index parts 1 of
                       Inl e \<Rightarrow> Inl e
                     | Inr p1 \<Rightarrow>
                         (let v = strip p1 in
                          if contains (ustr ''nom'') key
                          then Inr (AList.update kw_nom v m)
                          else if contains (ustr ''pr'' @ [233] @ ustr ''nom'') key
                                  \<or> contains (ustr ''prenom'') key
                          then Inr (AList.update kw_prenom v m)
                          else Inr m)))
          else Inr m) = Inr m1" by blast
  then show ?case
    using Cons.IH by (simp only: colon_scan.simps sum.case)
qed

text \<open>
  A key that contains "prenom", with or without the accent, contains "nom": the
  colon-pattern fallback never writes the first-name label.
\<close>

lemma contains_iff: "contains sub s \<longleftrightarrow> (\<exists>ps ss. s = ps @ sub @ ss)"
proof (induction s)
  case Nil
  show ?case by auto
next
  case (Cons c cs)
  show ?case
  proof
    assume "contains sub (c # cs)"
    then consider "prefix sub (c # cs)" | "contains sub cs" by auto
    then show "\<exists>ps ss. c # cs = ps @ sub @ ss"
    proof cases
      case 1
      then obtain ss where "c # cs = sub @ ss" by (auto simp: prefix_def)
      then have "c # cs = [] @ sub @ ss" by simp
      then show ?thesis by blast
    next
      case 2
      with Cons.IH obtain ps ss where "cs = ps @ sub @ ss" by blast
      then have "c # cs = (c # ps) @ sub @ ss" by simp
      then show ?thesis by blast
    qed
  next
    assume "\<exists>ps ss. c # cs = ps @ sub @ ss"
    then obtain ps ss where e: "c # cs = ps @ sub @ ss" by blast
    show "contains sub (c # cs)"
    proof (cases ps)
      case Nil
      with e have "prefix sub (c # cs)" by (simp add: prefix_def)
      then show ?thesis by simp
    next
      case (Cons p ps')
      with e have "cs = ps' @ sub @ ss" by simp
      with Cons.IH have "contains sub cs" by blast
      then show ?thesis by simp
    qed
  qed
qed

lemma contains_suffix_part: "contains (a @ b) s \<Longrightarrow> contains b s"
proof -
  assume "contains (a @ b) s"
  then obtain ps ss where "s = ps @ (a @ b) @ ss" by (auto simp: contains_iff)
  then have "s = (ps @ a) @ b @ ss" by simp
  then show ?thesis unfolding contains_iff [of b s] by blast
qed

lemma prenom_contains_nom:
  "contains (ustr ''pr'' @ [233] @ ustr ''nom'') key \<or> contains (ustr ''prenom'') key
   \<Longrightarrow> contains (ustr ''nom'') key"
proof -
  have a: "ustr ''pr'' @ [233] @ ustr ''nom'' = (ustr ''pr'' @ [233]) @ ustr ''nom''" by simp
  have b: "ustr ''prenom'' = ustr ''pre'' @ ustr ''nom''" by (simp add: ustr_def)
  assume "contains (ustr ''pr'' @ [233] @ ustr ''nom'') key \<or> contains (ustr ''prenom'') key"
  then show ?thesis
    unfolding a b using contains_suffix_part by blast
qed

lemma colon_line_keeps_prenom:
  assumes "(if contains [58] line
          then (let parts = split_on [58] [] line in
                case py_index parts 0 of
                  Inl e \<Rightarrow> Inl e
                | Inr p0 \<Rightarrow>
                    (let key = str_lower X (strip p0) in
                     case py_index parts 1 of
                       Inl e \<Rightarrow> Inl e
                     | Inr p1 \<Rightarrow>
                         (let v = strip p1 in
                          if contains (ustr ''nom'') key
                          then Inr (AList.update kw_nom v m)
                          else if contains (ustr ''pr'' @ [233] @ ustr ''nom'') key
                                  \<or> contains (ustr ''prenom'') key
                          then Inr (AList.update kw_prenom v m)
                          else Inr m)))
          else Inr m) = Inr m1"
  shows "map_of m1 kw_prenom = map_of m kw_prenom"
proof (cases "contains [58] line")
  case False
  with assms show ?thesis by simp
next
  case True
  have n: "kw_nom \<noteq> kw_prenom"
    by (simp add: kw_prenom_def kw_nom_def ustr_def)
  from True have "2 \<le> length (split_on [58] [] line)"
    by (simp add: contains_single split_on_single_length)
  then have i0: "py_index (split_on [58] [] line) 0 = Inr (split_on [58] [] line ! 0)"
    and i1: "py_index (split_on [58] [] line) 1 = Inr (split_on [58] [] line ! 1)"
    by (simp_all add: py_index_def split_on_nonempty)
  let ?key = "str_lower X (strip (split_on [58] [] line ! 0))"
  let ?v = "strip (split_on [58] [] line ! 1)"
  show ?thesis
  proof (cases "contains (ustr ''nom'') ?key")
    case nom: True
    with assms True i0 i1 have "m1 = AList.update kw_nom ?v m"
      by (simp add: Let_def)
    with n show ?thesis by (simp add: update_conv')
  next
    case nonom: False
    then have "\<not> (contains (ustr ''pr'' @ [233] @ ustr ''nom'') ?key
                  \<or> contains (ustr ''prenom'') ?key)"
      using prenom_contains_nom [of ?key] by blast
    with assms True i0 i1 nonom have "m1 = m"
      by (simp add: Let_def)
    then show ?thesis by simp
  qed
qed

lemma colon_scan_keeps_prenom:
  "colon_scan X ls m = Inr m' \<Longrightarrow> map_of m' kw_prenom = map_of m kw_prenom"
proof (induction ls arbitrary: m)
  case Nil
  then show ?case by simp
next
  case (Cons line rest)
  have c: "kw_candidat \<noteq> kw_prenom"
    by (simp add: kw_prenom_def kw_candidat_def ustr_def)
  from colon_line_ok [of line X m] obtain m1 where
    l: "(if contains [58] line
          then (let parts = split_on [58] [] line in
                case py_index parts 0 of
                  Inl e \<Rightarrow> Inl e
                | Inr p0 \<Rightarrow>
                    (let key = str_lower X (strip p0) in
                     case py_index parts 1 of
                       Inl e \<Rightarrow> Inl e
                     | Inr p1 \<Rightarrow>
                         (let v = strip p1 in
                          if contains (ustr ''nom'') key
                          then Inr (AList.update kw_nom v m)
                          else if contains (ustr ''pr'' @ [233] @ ustr ''nom'') key
                                  \<or> contains (ustr ''prenom'') key
                          then Inr (AList.update kw_prenom v m)
                          else Inr m)))
          else Inr m) = Inr m1" by blast
  then have k1: "map_of m1 kw_prenom = map_of m kw_prenom"
    by (rule colon_line_keeps_prenom)
  let ?m2 = "case rest of
               [] \<Rightarrow> m1
             | nxt # _ \<Rightarrow>
                 if contains (ustr ''candidat'') (str_lower X line)
                 then AList.update kw_candidat (strip nxt) m1
                 else m1"
  have k2: "map_of ?m2 kw_prenom = map_of m1 kw_prenom"
    using c by (cases rest) (simp_all add: update_conv')
  from Cons.prems l have "colon_scan X rest ?m2 = Inr m'"
    by (simp only: colon_scan.simps sum.case)
  from Cons.IH [OF this] k1 k2 show ?case by simp
qed

section \<open>Evaluation in the concrete environment\<close>

lemmas demo_eval =
  process_image_def process_image_try_def process_image_body_def demo_def demo_ocr_def
  extract_names_def keywords_def kw_prenom_def kw_nom_def kw_candidat_def ustr_def
  py_split_def py_last_def py_index_def strip_def isspace_cp_def extract_capital_words_def
  ascii_lower_def is_exception_def

lemmas format_eval =
  formatted_name_of_def raw_of_def format_names_def reformat_name_def normalize_value_def
  replace1_def strip_def isspace_cp_def kw_prenom_def kw_nom_def kw_candidat_def ustr_def

lemma demo_image_a:
  "process_image demo (ustr ''d/a.png'') = Inr (Some [(kw_candidat, ustr ''Dupont Jean'')])"
  by (simp add: demo_eval)

lemma demo_image_b:
  "process_image demo (ustr ''d/b.png'') = Inr (Some [(kw_candidat, ustr '': Dupont Jean'')])"
  by (simp add: demo_eval)

lemma demo_image_c:
  "process_image demo (ustr ''d/c.png'') = Inr (Some [(kw_candidat, ustr ''Durand Eve'')])"
  by (simp add: demo_eval)

lemma demo_image_z: "process_image demo (ustr ''d/z.png'') = Inr None"
  by (simp add: demo_eval)

lemma demo_image_k: "process_image demo (ustr ''d/k.png'') = Inl KeyboardInterrupt"
  by (simp add: demo_eval)

lemma demo_returns:
  "returns demo (ustr ''d/a.png'')" "returns demo (ustr ''d/b.png'')"
  "returns demo (ustr ''d/c.png'')" "returns demo (ustr ''d/z.png'')"
  by (simp_all add: returns_def demo_image_a demo_image_b demo_image_c demo_image_z)

lemma demo_a: "formatted_name_of demo (ustr ''d/a.png'') = Some (ustr ''Jean Dupont'')"
  unfolding formatted_name_of_def raw_of_def demo_image_a by (simp add: format_eval)

lemma demo_b: "formatted_name_of demo (ustr ''d/b.png'') = Some (ustr ''Jean Dupont'')"
  unfolding formatted_name_of_def raw_of_def demo_image_b by (simp add: format_eval)

lemma demo_c: "formatted_name_of demo (ustr ''d/c.png'') = Some (ustr ''Eve Durand'')"
  unfolding formatted_name_of_def raw_of_def demo_image_c by (simp add: format_eval)

lemma demo_z: "formatted_name_of demo (ustr ''d/z.png'') = None"
  unfolding formatted_name_of_def raw_of_def demo_image_z by (simp add: format_names_def)

lemma demo_raw:
  "raw_of demo (ustr ''d/a.png'') = Some [(kw_candidat, ustr ''Dupont Jean'')]"
  "raw_of demo (ustr ''d/z.png'') = None"
  by (simp_all add: raw_of_def demo_image_a demo_image_z)

lemma demo_basenames:
  "basename (ustr ''d/a.png'') = ustr ''a.png''"
  "basename (ustr ''d/c.png'') = ustr ''c.png''"
  "basename (ustr ''d/z.png'') = ustr ''z.png''"
  by (simp_all add: basename_def ustr_def)

lemma demo_names_ab:
  "names_of demo [ustr ''d/a.png'', ustr ''d/b.png''] = [ustr ''Jean Dupont'', ustr ''Jean Dupont'']"
  by (simp add: names_of_Cons names_of_Nil demo_a demo_b) (simp add: ustr_def)

lemma demo_names_zac:
  "names_of demo [ustr ''d/z.png'', ustr ''d/a.png'', ustr ''d/c.png''] =
     [ustr ''Jean Dupont'', ustr ''Eve Durand'']"
  by (simp add: names_of_Cons names_of_Nil demo_a demo_c demo_z) (simp add: ustr_def)

lemma demo_f_words:
  "extract_capital_words demo
     (Document [Page [Block [Line [Word (ustr ''ABC''), Word (ustr ''ab''),
                                   Word (ustr ''DEF'')],
                             Line [Word (ustr ''GHI''), Word (ustr ''JK'')]],
                      Block [Line [Word (ustr ''LMN''), Word (ustr ''OPQ''),
                                   Word (ustr ''DUPONT''), Word (ustr ''JEAN'')]]]]) =
   [ustr ''ABC'', ustr ''DEF'', ustr ''GHI'', ustr ''LMN'', ustr ''OPQ'', ustr ''DUPONT'',
    ustr ''JEAN'']"
  by (simp add: extract_capital_words_def demo_def ascii_isupper_def ustr_def)

lemma demo_f_ocr:
  "run_ocr demo (ustr ''d/f.png'') =
     Inr (ustr ''ABC ab'',
          Document [Page [Block [Line [Word (ustr ''ABC''), Word (ustr ''ab''),
                                       Word (ustr ''DEF'')],
                                 Line [Word (ustr ''GHI''), Word (ustr ''JK'')]],
                          Block [Line [Word (ustr ''LMN''), Word (ustr ''OPQ''),
                                       Word (ustr ''DUPONT''), Word (ustr ''JEAN'')]]]])"
  by (simp add: demo_def demo_ocr_def ustr_def)

lemma demo_f_keywords: "extract_names (ustr ''ABC ab'') keywords = Inr []"
  by (simp add: extract_names_def keywords_def kw_prenom_def kw_nom_def kw_candidat_def
                ustr_def)

lemma demo_z_ocr: "run_ocr demo (ustr ''d/z.png'') = Inl OcrFailure"
  by (simp add: demo_def demo_ocr_def ustr_def)

lemma demo_k_ocr: "run_ocr demo (ustr ''d/k.png'') = Inl KeyboardInterrupt"
  by (simp add: demo_def demo_ocr_def ustr_def)

lemma demo_a_ocr:
  "run_ocr demo (ustr ''d/a.png'') = Inr (ustr ''Le candidat(e) Dupont Jean'', Document [])"
  by (simp add: demo_def demo_ocr_def ustr_def)

lemma demo_a_keywords:
  "extract_names (ustr ''Le candidat(e) Dupont Jean'') keywords =
     Inr [(kw_candidat, ustr ''Dupont Jean'')]"
  by (simp add: extract_names_def keywords_def kw_prenom_def kw_nom_def kw_candidat_def
                ustr_def py_split_def py_last_def strip_def isspace_cp_def)

section \<open>Claims\<close>

text \<open>
  C9. The value normalizer is idempotent: normalizing a normalized string changes
  nothing. It maps " foo: " to "foo" and leaves "foo" as it is.
\<close>

theorem normalize_value_idempotent:
  "normalize_value (normalize_value x) = normalize_value x
   \<and> normalize_value (ustr '' foo: '') = ustr ''foo''
   \<and> normalize_value (ustr ''foo'') = ustr ''foo''"
proof -
  have "filter (\<lambda>c. c \<noteq> 58) (normalize_value x) = normalize_value x"
    using normalize_value_no_colon [of x] by (auto simp: filter_id_conv)
  then have "normalize_value (normalize_value x) = strip (normalize_value x)"
    by (simp add: normalize_value_def [of "normalize_value x"] replace1_filter)
  also have "\<dots> = normalize_value x"
    by (simp add: normalize_value_def [of x] strip_idem)
  finally have idem: "normalize_value (normalize_value x) = normalize_value x" .
  have e1: "normalize_value (ustr '' foo: '') = ustr ''foo''"
    by (simp add: normalize_value_def strip_def replace1_def isspace_cp_def ustr_def)
  have e2: "normalize_value (ustr ''foo'') = ustr ''foo''"
    by (simp add: normalize_value_def strip_def replace1_def isspace_cp_def ustr_def)
  from idem e1 e2 show ?thesis by simp
qed

text \<open>
  C1. Whenever the folder verifier, or the standalone comparison, gives a result for a
  folder with at least one image, \<open>is_correct\<close> holds exactly when at least one
  FormattedName was extracted and all extracted names are equal as strings, and
  \<open>verified_name\<close> is that common name when \<open>is_correct\<close> holds and absent otherwise.
  Both give a result, with the same two fields, when no exception leaves the resolver on
  an image of the folder.
\<close>

theorem is_correct_iff_all_identical:
  assumes "image_paths \<noteq> []"
  shows "(\<forall>r. validate_subdir X subdir image_paths = Inr (Some r) \<longrightarrow>
            (is_correct r \<longleftrightarrow>
               names_of X image_paths \<noteq> []
               \<and> (\<forall>a\<in>set (names_of X image_paths). \<forall>b\<in>set (names_of X image_paths). a = b))
            \<and> (is_correct r \<longrightarrow>
                 (\<exists>n. verified_name r = Some n \<and> set (names_of X image_paths) = {n}))
            \<and> (\<not> is_correct r \<longrightarrow> verified_name r = None))
         \<and> (\<forall>s. compare_subdir X subdir image_paths = Inr (Some s) \<longrightarrow>
              (sr_is_correct s \<longleftrightarrow>
                 names_of X image_paths \<noteq> []
                 \<and> (\<forall>a\<in>set (names_of X image_paths). \<forall>b\<in>set (names_of X image_paths). a = b))
              \<and> (sr_is_correct s \<longrightarrow>
                   (\<exists>n. sr_verified_name s = Some n \<and> set (names_of X image_paths) = {n}))
              \<and> (\<not> sr_is_correct s \<longrightarrow> sr_verified_name s = None))
         \<and> (list_all (returns X) image_paths \<longrightarrow>
              (\<exists>r s. validate_subdir X subdir image_paths = Inr (Some r)
                 \<and> compare_subdir X subdir image_paths = Inr (Some s)
                 \<and> sr_is_correct s = is_correct r
                 \<and> sr_verified_name s = verified_name r))"
proof -
  have v: "(is_correct r \<longleftrightarrow>
               names_of X image_paths \<noteq> []
               \<and> (\<forall>a\<in>set (names_of X image_paths). \<forall>b\<in>set (names_of X image_paths). a = b))
            \<and> (is_correct r \<longrightarrow>
                 (\<exists>n. verified_name r = Some n \<and> set (names_of X image_paths) = {n}))
            \<and> (\<not> is_correct r \<longrightarrow> verified_name r = None)"
    if "validate_subdir X subdir image_paths = Inr (Some r)" for r
    by (rule all_identical_fields
          [OF validate_subdir_result(1) [OF that] validate_subdir_result(2) [OF that]])
  have c: "(sr_is_correct s \<longleftrightarrow>
               names_of X image_paths \<noteq> []
               \<and> (\<forall>a\<in>set (names_of X image_paths). \<forall>b\<in>set (names_of X image_paths). a = b))
            \<and> (sr_is_correct s \<longrightarrow>
                 (\<exists>n. sr_verified_name s = Some n \<and> set (names_of X image_paths) = {n}))
            \<and> (\<not> sr_is_correct s \<longrightarrow> sr_verified_name s = None)"
    if "compare_subdir X subdir image_paths = Inr (Some s)" for s
    by (rule all_identical_fields
          [OF compare_subdir_result(1) [OF that] compare_subdir_result(2) [OF that]])
  have e: "\<exists>r s. validate_subdir X subdir image_paths = Inr (Some r)
                 \<and> compare_subdir X subdir image_paths = Inr (Some s)
                 \<and> sr_is_correct s = is_correct r
                 \<and> sr_verified_name s = verified_name r"
    if ret: "list_all (returns X) image_paths"
  proof -
    from validate_subdir_fields [OF assms ret, of subdir]
    obtain r where r: "validate_subdir X subdir image_paths = Inr (Some r)" by blast
    from compare_subdir_fields [OF assms ret, of subdir]
    obtain s where s: "compare_subdir X subdir image_paths = Inr (Some s)" by blast
    have "sr_is_correct s = is_correct r"
      by (simp only: validate_subdir_result(1) [OF r] compare_subdir_result(1) [OF s])
    moreover have "sr_verified_name s = verified_name r"
      by (simp only: validate_subdir_result(2) [OF r] compare_subdir_result(2) [OF s])
    ultimately show ?thesis using r s by blast
  qed
  from v c e show ?thesis by blast
qed

theorem is_correct_iff_all_identical_witness:
  "[ustr ''d/a.png'', ustr ''d/b.png''] \<noteq> []
   \<and> list_all (returns demo) [ustr ''d/a.png'', ustr ''d/b.png'']
   \<and> (\<exists>r s. validate_subdir demo (ustr ''AB1_x'') [ustr ''d/a.png'', ustr ''d/b.png''] =
               Inr (Some r)
          \<and> compare_subdir demo (ustr ''AB1_x'') [ustr ''d/a.png'', ustr ''d/b.png''] =
               Inr (Some s)
          \<and> is_correct r \<and> verified_name r = Some (ustr ''Jean Dupont'')
          \<and> sr_is_correct s \<and> sr_verified_name s = Some (ustr ''Jean Dupont''))"
proof -
  let ?ps = "[ustr ''d/a.png'', ustr ''d/b.png'']"
  have ne: "?ps \<noteq> []" by simp
  have ret: "list_all (returns demo) ?ps" by (simp add: demo_returns)
  note t = is_correct_iff_all_identical [OF ne, of demo "ustr ''AB1_x''"]
  from t [THEN conjunct2, THEN conjunct2, THEN mp, OF ret]
  obtain r s where r: "validate_subdir demo (ustr ''AB1_x'') ?ps = Inr (Some r)"
    and s: "compare_subdir demo (ustr ''AB1_x'') ?ps = Inr (Some s)"
    and sc: "sr_is_correct s = is_correct r"
    and sv: "sr_verified_name s = verified_name r"
    by blast
  from t [THEN conjunct1, THEN spec, THEN mp, OF r]
  have iff: "is_correct r \<longleftrightarrow>
                names_of demo ?ps \<noteq> []
                \<and> (\<forall>a\<in>set (names_of demo ?ps). \<forall>b\<in>set (names_of demo ?ps). a = b)"
    and ver: "is_correct r \<longrightarrow>
                (\<exists>n. verified_name r = Some n \<and> set (names_of demo ?ps) = {n})"
    by simp_all
  from iff have c: "is_correct r" by (simp add: demo_names_ab)
  with ver obtain n where n: "verified_name r = Some n" "set (names_of demo ?ps) = {n}"
    by blast
  from n(2) have "n = ustr ''Jean Dupont''" by (simp add: demo_names_ab)
  with n(1) have v: "verified_name r = Some (ustr ''Jean Dupont'')" by simp
  from ne ret r s c v sc sv show ?thesis by auto
qed

text \<open>
  C2. A folder whose only image fails in the OCR engine: the resolver catches the
  exception and returns nothing, the image has no FormattedName, and the result has no
  error record at all. When the folder also holds an image with a name, the same failing
  image gets its record "No name could be extracted".
\<close>

theorem no_error_record_when_every_image_fails:
  "run_ocr demo (ustr ''d/z.png'') = Inl OcrFailure
   \<and> validate_subdir demo (ustr ''AB1_x'') [ustr ''d/z.png''] =
       Inr (Some \<lparr>cin = ustr ''AB1'', is_correct = False, verified_name = None, errors = [],
                  file_details =
                    [\<lparr>file = ustr ''z.png'', extracted_name = None, raw_data = None\<rparr>]\<rparr>)
   \<and> validate_subdir demo (ustr ''AB1_x'') [ustr ''d/z.png'', ustr ''d/a.png''] =
       Inr (Some \<lparr>cin = ustr ''AB1'', is_correct = True,
                  verified_name = Some (ustr ''Jean Dupont''),
                  errors = [\<lparr>err_file = ustr ''z.png'', error = no_name_msg\<rparr>],
                  file_details =
                    [\<lparr>file = ustr ''z.png'', extracted_name = None, raw_data = None\<rparr>,
                     \<lparr>file = ustr ''a.png'', extracted_name = Some (ustr ''Jean Dupont''),
                      raw_data = Some [(kw_candidat, ustr ''Dupont Jean'')]\<rparr>]\<rparr>)"
proof -
  have c: "(if contains [95] (ustr ''AB1_x'') then hd (split_on [95] [] (ustr ''AB1_x''))
            else ustr ''AB1_x'') = ustr ''AB1''"
    by (simp add: ustr_def)
  have fz: "format_names None = None" by (simp add: format_names_def)
  have fa: "format_names (Some [(kw_candidat, ustr ''Dupont Jean'')]) = Some (ustr ''Jean Dupont'')"
    using demo_a by (simp add: formatted_name_of_def demo_raw)
  have t: "ustr ''Jean Dupont'' \<noteq> []" by (simp add: ustr_def)
  have one: "validate_subdir demo (ustr ''AB1_x'') [ustr ''d/z.png''] =
       Inr (Some \<lparr>cin = ustr ''AB1'', is_correct = False, verified_name = None, errors = [],
                  file_details =
                    [\<lparr>file = ustr ''z.png'', extracted_name = None, raw_data = None\<rparr>]\<rparr>)"
    unfolding validate_subdir_def c
    by (simp add: demo_image_z fz demo_basenames truthy_def)
  have two: "validate_subdir demo (ustr ''AB1_x'') [ustr ''d/z.png'', ustr ''d/a.png''] =
       Inr (Some \<lparr>cin = ustr ''AB1'', is_correct = True,
                  verified_name = Some (ustr ''Jean Dupont''),
                  errors = [\<lparr>err_file = ustr ''z.png'', error = no_name_msg\<rparr>],
                  file_details =
                    [\<lparr>file = ustr ''z.png'', extracted_name = None, raw_data = None\<rparr>,
                     \<lparr>file = ustr ''a.png'', extracted_name = Some (ustr ''Jean Dupont''),
                      raw_data = Some [(kw_candidat, ustr ''Dupont Jean'')]\<rparr>]\<rparr>)"
    unfolding validate_subdir_def c
    using t by (simp add: demo_image_z demo_image_a fz fa demo_basenames truthy_def)
  from demo_z_ocr one two show ?thesis by simp
qed

text \<open>
  C5. In a folder that is not consistent and has a first extracted name, the mismatch
  records are, in order, one for each image whose extracted name differs from that first
  name; the image that provided the first name has that name, so it is not among them.
\<close>

theorem mismatch_errors_against_first_name:
  assumes "validate_subdir X subdir image_paths = Inr (Some r)"
    and "\<not> is_correct r"
    and "names_of X image_paths = first_name # others"
  shows "filter (\<lambda>e. error e \<noteq> no_name_msg) (errors r) =
           concat (map (\<lambda>p. map (\<lambda>n. \<lparr>err_file = basename p, error = mismatch_msg n\<rparr>)
                              (filter (\<lambda>n. n \<noteq> first_name) (names_of X [p]))) image_paths)
         \<and> (\<forall>p0. find (\<lambda>p. names_of X [p] \<noteq> []) image_paths = Some p0 \<longrightarrow>
                  names_of X [p0] = [first_name])"
proof -
  from validate_subdir_result(1) [OF assms(1)] assms(3)
  have rc: "is_correct r = list_all (\<lambda>n. n = first_name) (first_name # others)"
    by simp
  from validate_subdir_result(3) [OF assms(1)] assms(3)
  have re: "errors r =
                gen_errors (list_all (\<lambda>n. n = first_name) (first_name # others)) first_name
                  (map (\<lambda>p. \<lparr>file = basename p, extracted_name = formatted_name_of X p,
                                  raw_data = raw_of X p\<rparr>) image_paths) []"
    by simp
  from rc assms(2) have "\<not> list_all (\<lambda>n. n = first_name) (first_name # others)" by simp
  with re have "errors r =
                gen_errors False first_name
                  (map (\<lambda>p. \<lparr>file = basename p, extracted_name = formatted_name_of X p,
                                  raw_data = raw_of X p\<rparr>) image_paths) []"
    by simp
  then have c1: "filter (\<lambda>e. error e \<noteq> no_name_msg) (errors r) =
           concat (map (\<lambda>p. map (\<lambda>n. \<lparr>err_file = basename p, error = mismatch_msg n\<rparr>)
                              (filter (\<lambda>n. n \<noteq> first_name) (names_of X [p]))) image_paths)"
    by (simp add: mismatch_errors)
  have c2: "\<forall>p0. find (\<lambda>p. names_of X [p] \<noteq> []) image_paths = Some p0 \<longrightarrow>
                  names_of X [p0] = [first_name]"
    using find_first_name [OF _ assms(3)] by blast
  from c1 c2 show ?thesis by blast
qed

theorem mismatch_errors_against_first_name_witness:
  "\<exists>r. validate_subdir demo (ustr ''AB1_x'')
          [ustr ''d/z.png'', ustr ''d/a.png'', ustr ''d/c.png''] = Inr (Some r)
       \<and> \<not> is_correct r
       \<and> names_of demo [ustr ''d/z.png'', ustr ''d/a.png'', ustr ''d/c.png''] =
           [ustr ''Jean Dupont'', ustr ''Eve Durand'']
       \<and> filter (\<lambda>e. error e \<noteq> no_name_msg) (errors r) =
           [\<lparr>err_file = ustr ''c.png'', error = mismatch_msg (ustr ''Eve Durand'')\<rparr>]
       \<and> find (\<lambda>p. names_of demo [p] \<noteq> [])
            [ustr ''d/z.png'', ustr ''d/a.png'', ustr ''d/c.png''] = Some (ustr ''d/a.png'')
       \<and> names_of demo [ustr ''d/a.png''] = [ustr ''Jean Dupont'']"
proof -
  let ?ps = "[ustr ''d/z.png'', ustr ''d/a.png'', ustr ''d/c.png'']"
  have ne: "?ps \<noteq> []" by simp
  have ret: "list_all (returns demo) ?ps" by (simp add: demo_returns)
  have n: "names_of demo ?ps = [ustr ''Jean Dupont'', ustr ''Eve Durand'']"
    by (rule demo_names_zac)
  have d: "ustr ''Eve Durand'' \<noteq> ustr ''Jean Dupont''" by (simp add: ustr_def)
  from validate_subdir_fields [OF ne ret, of "ustr ''AB1_x''"]
  obtain r where r: "validate_subdir demo (ustr ''AB1_x'') ?ps = Inr (Some r)"
    and c: "\<not> is_correct r"
    using d by (auto simp: n)
  have nz: "names_of demo [ustr ''d/z.png''] = []"
    by (simp add: names_of_single demo_z)
  have na: "names_of demo [ustr ''d/a.png''] = [ustr ''Jean Dupont'']"
    by (simp add: names_of_single demo_a) (simp add: ustr_def)
  have nc: "names_of demo [ustr ''d/c.png''] = [ustr ''Eve Durand'']"
    by (simp add: names_of_single demo_c) (simp add: ustr_def)
  have f: "find (\<lambda>p. names_of demo [p] \<noteq> []) ?ps = Some (ustr ''d/a.png'')"
    by (simp add: nz na)
  from mismatch_errors_against_first_name [OF r c n]
  have "filter (\<lambda>e. error e \<noteq> no_name_msg) (errors r) =
          concat (map (\<lambda>p. map (\<lambda>n. \<lparr>err_file = basename p, error = mismatch_msg n\<rparr>)
                             (filter (\<lambda>n. n \<noteq> ustr ''Jean Dupont'') (names_of demo [p]))) ?ps)"
    and "names_of demo [ustr ''d/a.png''] = [ustr ''Jean Dupont'']"
    using f by blast+
  then have "filter (\<lambda>e. error e \<noteq> no_name_msg) (errors r) =
          [\<lparr>err_file = ustr ''c.png'', error = mismatch_msg (ustr ''Eve Durand'')\<rparr>]"
    using d by (simp add: nz na nc demo_basenames)
  with r c n f na show ?thesis by blast
qed

text \<open>
  C10. In the standalone comparison, \<open>files_processed\<close> has one entry for each image
  with a FormattedName and none for any other image; \<open>student_result\<close> has no field
  for error records.
\<close>

theorem files_processed_only_named:
  assumes "compare_subdir X subdir image_paths = Inr (Some s)"
  shows "sr_files_processed s =
           concat (map (\<lambda>p. map (\<lambda>n. \<lparr>pf_file = basename p, pf_extracted_name = n\<rparr>)
                              (names_of X [p])) image_paths)
         \<and> map pf_extracted_name (sr_files_processed s) = names_of X image_paths
         \<and> length (sr_files_processed s) =
             length (filter (\<lambda>p. truthy (formatted_name_of X p)) image_paths)"
proof -
  note f = compare_subdir_result(4) [OF assms]
  have g: "map pf_extracted_name
             (concat (map (\<lambda>p. map (\<lambda>n. \<lparr>pf_file = basename p, pf_extracted_name = n\<rparr>)
                              (names_of X [p])) ps)) = names_of X ps" for ps
    by (induction ps)
       (auto simp: names_of_Nil names_of_Cons names_of_single comp_def split: option.splits)
  have h: "length
             (concat (map (\<lambda>p. map (\<lambda>n. \<lparr>pf_file = basename p, pf_extracted_name = n\<rparr>)
                              (names_of X [p])) ps)) =
           length (filter (\<lambda>p. truthy (formatted_name_of X p)) ps)" for ps
    by (induction ps) (auto simp: names_of_single truthy_def split: option.splits)
  from f g h show ?thesis by simp
qed

theorem files_processed_only_named_witness:
  "\<exists>s. compare_subdir demo (ustr ''AB1_x'') [ustr ''d/z.png'', ustr ''d/a.png''] = Inr (Some s)
       \<and> sr_files_processed s =
           [\<lparr>pf_file = ustr ''a.png'', pf_extracted_name = ustr ''Jean Dupont''\<rparr>]"
proof -
  let ?ps = "[ustr ''d/z.png'', ustr ''d/a.png'']"
  have ne: "?ps \<noteq> []" by simp
  have ret: "list_all (returns demo) ?ps" by (simp add: demo_returns)
  from compare_subdir_fields [OF ne ret, of "ustr ''AB1_x''"]
  obtain s where s: "compare_subdir demo (ustr ''AB1_x'') ?ps = Inr (Some s)" by blast
  have nz: "names_of demo [ustr ''d/z.png''] = []"
    by (simp add: names_of_single demo_z)
  have na: "names_of demo [ustr ''d/a.png''] = [ustr ''Jean Dupont'']"
    by (simp add: names_of_single demo_a) (simp add: ustr_def)
  from files_processed_only_named [OF s]
  have "sr_files_processed s =
          concat (map (\<lambda>p. map (\<lambda>n. \<lparr>pf_file = basename p, pf_extracted_name = n\<rparr>)
                             (names_of demo [p])) ?ps)"
    by blast
  then have "sr_files_processed s =
          [\<lparr>pf_file = ustr ''a.png'', pf_extracted_name = ustr ''Jean Dupont''\<rparr>]"
    by (simp add: nz na demo_basenames)
  with s show ?thesis by blast
qed

text \<open>
  On the transcript of the two lines "Prenom: Jean" and "Nom: Dupont" the keyword
  extractor does not return the values "Jean" and "Dupont".
\<close>

theorem keyword_extractor_example_counterexample:
  "extract_names (kw_prenom @ ustr '': Jean'' @ [10] @ ustr ''Nom: Dupont'') keywords \<noteq>
     Inr [(kw_prenom, ustr ''Jean''), (kw_nom, ustr ''Dupont'')]
   \<and> extract_names (kw_prenom @ ustr '': Jean'' @ [10] @ ustr ''Nom: Dupont'') keywords \<noteq>
     Inr [(kw_nom, ustr ''Dupont''), (kw_prenom, ustr ''Jean'')]"
  by (simp add: extract_names_def keywords_def kw_prenom_def kw_nom_def kw_candidat_def
                ustr_def py_split_def py_last_def strip_def isspace_cp_def)

text \<open>
  C3, as amended. On the transcript of the two lines "Prenom: Jean" and "Nom: Dupont"
  the keyword extractor returns the text after each keyword, trimmed, with its colon:
  ": Jean" under the first-name label and ": Dupont" under the last-name label. The
  name formatter, which normalizes the values, returns "Jean Dupont" on that map.
\<close>

theorem keyword_extractor_example:
  "extract_names (kw_prenom @ ustr '': Jean'' @ [10] @ ustr ''Nom: Dupont'') keywords =
     Inr [(kw_prenom, ustr '': Jean''), (kw_nom, ustr '': Dupont'')]
   \<and> reformat_name [(kw_prenom, ustr '': Jean''), (kw_nom, ustr '': Dupont'')] =
     Some (ustr ''Jean Dupont'')"
  by (simp add: extract_names_def keywords_def kw_prenom_def kw_nom_def kw_candidat_def
                ustr_def py_split_def py_last_def strip_def isspace_cp_def
                reformat_name_def normalize_value_def replace1_def)

text \<open>
  C4. An image whose transcript is the line "prenom: Jean" passes the keyword extractor
  (no keyword occurs) and the capitalized-token extractor (no token); the colon-pattern
  fallback then stores "Jean" under the last-name label, not under the first-name
  label: the test for "nom" comes first and succeeds on the key "prenom".
\<close>

theorem colon_fallback_prenom_goes_to_nom:
  "run_ocr demo (ustr ''d/e.png'') = Inr (ustr ''prenom: Jean'', Document [])
   \<and> extract_names (ustr ''prenom: Jean'') keywords = Inr []
   \<and> extract_capital_words demo (Document []) = []
   \<and> colon_scan demo [ustr ''prenom: Jean''] [] = Inr [(kw_nom, ustr ''Jean'')]
   \<and> process_image demo (ustr ''d/e.png'') = Inr (Some [(kw_nom, ustr ''Jean'')])"
  by (simp add: demo_eval)

text \<open>
  C7. For a map without the pair of first-name and last-name labels: if it has the
  combined-candidate label, the formatter normalizes the value and splits it on
  whitespace; two tokens are returned in reversed order with one space between them, any
  other number of tokens gives the normalized value; without the candidate label the
  result is absent.
\<close>

theorem reformat_name_candidate:
  assumes "\<not> (map_of name_info kw_prenom \<noteq> None \<and> map_of name_info kw_nom \<noteq> None)"
  shows "(\<forall>v. map_of name_info kw_candidat = Some v \<longrightarrow>
            (\<forall>a b. split_ws [] (normalize_value v) = [a, b] \<longrightarrow>
               reformat_name name_info = Some (b @ [32] @ a))
            \<and> (length (split_ws [] (normalize_value v)) \<noteq> 2 \<longrightarrow>
                 reformat_name name_info = Some (normalize_value v)))
         \<and> (map_of name_info kw_candidat = None \<longrightarrow> reformat_name name_info = None)"
  using assms by (auto simp: reformat_name_def Let_def)

theorem reformat_name_candidate_witness:
  "\<not> (map_of [(kw_candidat, ustr ''Dupont Jean'')] kw_prenom \<noteq> None
       \<and> map_of [(kw_candidat, ustr ''Dupont Jean'')] kw_nom \<noteq> None)
   \<and> map_of [(kw_candidat, ustr ''Dupont Jean'')] kw_candidat = Some (ustr ''Dupont Jean'')
   \<and> split_ws [] (normalize_value (ustr ''Dupont Jean'')) = [ustr ''Dupont'', ustr ''Jean'']
   \<and> reformat_name [(kw_candidat, ustr ''Dupont Jean'')] = Some (ustr ''Jean Dupont'')"
proof -
  let ?m = "[(kw_candidat, ustr ''Dupont Jean'')]"
  have h: "\<not> (map_of ?m kw_prenom \<noteq> None \<and> map_of ?m kw_nom \<noteq> None)"
    by (simp add: kw_candidat_def kw_prenom_def ustr_def)
  have c: "map_of ?m kw_candidat = Some (ustr ''Dupont Jean'')" by simp
  have s: "split_ws [] (normalize_value (ustr ''Dupont Jean'')) = [ustr ''Dupont'', ustr ''Jean'']"
    by (simp add: normalize_value_def replace1_def strip_def isspace_cp_def ustr_def)
  from reformat_name_candidate [OF h] c s
  have "reformat_name ?m = Some (ustr ''Jean'' @ [32] @ ustr ''Dupont'')" by blast
  then have "reformat_name ?m = Some (ustr ''Jean Dupont'')" by (simp add: ustr_def)
  with h c s show ?thesis by blast
qed

text \<open>
  C6. The capitalized-token extractor keeps, in reading order (pages, blocks, lines,
  words), the tokens for which \<open>str.isupper\<close> holds and that have more than two
  characters. When the keyword extractor found nothing: with at least seven such tokens
  the resolver returns the map of the first-name label to the token at index 5 and of the
  last-name label to the token at index 6, two distinct labels; with fewer, the strategy
  adds nothing and the colon-pattern fallback starts from the empty map.
\<close>

theorem capitalized_token_fallback:
  assumes "run_ocr X image_path = Inr (extracted_text, result)"
    and "extract_names extracted_text keywords = Inr []"
  shows "extract_capital_words X result =
           filter (\<lambda>w. str_isupper X w \<and> 2 < length w)
             (map word_value
                (concat (map words (concat (map lines (concat (map blocks (pages result))))))))
         \<and> (7 \<le> length (extract_capital_words X result) \<longrightarrow>
               process_image X image_path =
                 Inr (Some [(kw_prenom, extract_capital_words X result ! 5),
                            (kw_nom, extract_capital_words X result ! 6)]))
         \<and> kw_prenom \<noteq> kw_nom
         \<and> (length (extract_capital_words X result) < 7 \<longrightarrow>
               (\<exists>m. colon_scan X (split_on [10] [] extracted_text) [] = Inr m
                    \<and> process_image X image_path = Inr (if m = [] then None else Some m)))"
proof -
  from colon_scan_ok [of X "split_on [10] [] extracted_text" "[]"]
  obtain m where m: "colon_scan X (split_on [10] [] extracted_text) [] = Inr m" by blast
  have a: "7 \<le> length (extract_capital_words X result) \<longrightarrow>
             process_image X image_path =
               Inr (Some [(kw_prenom, extract_capital_words X result ! 5),
                          (kw_nom, extract_capital_words X result ! 6)])"
    using assms
    by (simp add: process_image_def process_image_try_def process_image_body_def py_index_def
                  Let_def)
  have b: "kw_prenom \<noteq> kw_nom"
    by (simp add: kw_prenom_def kw_nom_def ustr_def)
  have c: "length (extract_capital_words X result) < 7 \<longrightarrow>
             process_image X image_path = Inr (if m = [] then None else Some m)"
    using assms m
    by (auto simp: process_image_def process_image_try_def process_image_body_def Let_def)
  from extract_capital_words_filter [of X result] a b c m show ?thesis by blast
qed

theorem capitalized_token_fallback_witness:
  "extract_names (ustr ''ABC ab'') keywords = Inr []
   \<and> process_image demo (ustr ''d/f.png'') =
       Inr (Some [(kw_prenom, ustr ''DUPONT''), (kw_nom, ustr ''JEAN'')])"
proof -
  from capitalized_token_fallback [OF demo_f_ocr demo_f_keywords]
  have "7 \<le> length [ustr ''ABC'', ustr ''DEF'', ustr ''GHI'', ustr ''LMN'', ustr ''OPQ'',
                      ustr ''DUPONT'', ustr ''JEAN''] \<longrightarrow>
        process_image demo (ustr ''d/f.png'') =
          Inr (Some [(kw_prenom, [ustr ''ABC'', ustr ''DEF'', ustr ''GHI'', ustr ''LMN'',
                                  ustr ''OPQ'', ustr ''DUPONT'', ustr ''JEAN''] ! 5),
                     (kw_nom, [ustr ''ABC'', ustr ''DEF'', ustr ''GHI'', ustr ''LMN'',
                               ustr ''OPQ'', ustr ''DUPONT'', ustr ''JEAN''] ! 6)])"
    unfolding demo_f_words by blast
  then have "process_image demo (ustr ''d/f.png'') =
               Inr (Some [(kw_prenom, ustr ''DUPONT''), (kw_nom, ustr ''JEAN'')])"
    by simp
  with demo_f_keywords show ?thesis by blast
qed

text \<open>
  When the OCR engine is interrupted from the keyboard, the exception leaves the
  resolver: the clause \<open>except Exception\<close> does not catch it.
\<close>

theorem process_image_interrupt_counterexample:
  "run_ocr demo (ustr ''d/k.png'') = Inl KeyboardInterrupt
   \<and> process_image demo (ustr ''d/k.png'') = Inl KeyboardInterrupt"
  by (simp add: demo_eval)

text \<open>
  C8, as amended. When the OCR engine returns, nothing raises in the parsing, and the
  resolver returns the result of the first strategy that has one: the map of the keyword
  extractor if it is not empty, whatever the tokens are; otherwise the positional map of
  seven or more capitalized tokens; otherwise the map of the colon-pattern fallback,
  \<open>None\<close> when it is empty. An exception of the \<open>try\<close> block that is an instance of
  \<open>Exception\<close> is caught and, when the \<open>print\<close> of the handler returns, the resolver
  returns \<open>None\<close>; an exception that is not an instance of \<open>Exception\<close>, and an exception
  of that \<open>print\<close>, leave the resolver.
\<close>

theorem process_image_strategy_order:
  "(\<forall>e. process_image_try X image_path = Inl e \<and> is_exception e
         \<and> print_error X image_path e = None \<longrightarrow>
         process_image X image_path = Inr None)
   \<and> (\<forall>e. process_image_try X image_path = Inl e \<and> \<not> is_exception e \<longrightarrow>
         process_image X image_path = Inl e)
   \<and> (\<forall>e e'. process_image_try X image_path = Inl e \<and> is_exception e
         \<and> print_error X image_path e = Some e' \<longrightarrow>
         process_image X image_path = Inl e')
   \<and> (\<forall>e. process_image_try X image_path = Inl e \<longleftrightarrow> run_ocr X image_path = Inl e)
   \<and> (\<forall>extracted_text result. run_ocr X image_path = Inr (extracted_text, result) \<longrightarrow>
        (\<exists>name_info. extract_names extracted_text keywords = Inr name_info
              \<and> (name_info \<noteq> [] \<longrightarrow> process_image X image_path = Inr (Some name_info))
              \<and> (name_info = [] \<and> 7 \<le> length (extract_capital_words X result) \<longrightarrow>
                   process_image X image_path =
                     Inr (Some [(kw_prenom, extract_capital_words X result ! 5),
                                (kw_nom, extract_capital_words X result ! 6)]))
              \<and> (name_info = [] \<and> length (extract_capital_words X result) < 7 \<longrightarrow>
                   (\<exists>m. colon_scan X (split_on [10] [] extracted_text) [] = Inr m
                        \<and> process_image X image_path =
                            Inr (if m = [] then None else Some m)))))"
proof -
  have caught: "\<forall>e. process_image_try X image_path = Inl e \<and> is_exception e
         \<and> print_error X image_path e = None \<longrightarrow>
         process_image X image_path = Inr None"
    by (simp add: process_image_def)
  have passed: "\<forall>e. process_image_try X image_path = Inl e \<and> \<not> is_exception e \<longrightarrow>
         process_image X image_path = Inl e"
    by (simp add: process_image_def)
  have handler: "\<forall>e e'. process_image_try X image_path = Inl e \<and> is_exception e
         \<and> print_error X image_path e = Some e' \<longrightarrow>
         process_image X image_path = Inl e'"
    by (simp add: process_image_def)
  have body: "\<exists>names. process_image_body X extracted_text result = Inr names"
    for extracted_text result
  proof -
    from extract_names_ok [of extracted_text]
    obtain name_info where n: "extract_names extracted_text keywords = Inr name_info" by blast
    from colon_scan_ok [of X "split_on [10] [] extracted_text" name_info]
    obtain m where "colon_scan X (split_on [10] [] extracted_text) name_info = Inr m" by blast
    with n show ?thesis
      by (auto simp: process_image_body_def py_index_def Let_def)
  qed
  have source: "\<forall>e. process_image_try X image_path = Inl e \<longleftrightarrow> run_ocr X image_path = Inl e"
  proof
    fix e
    show "process_image_try X image_path = Inl e \<longleftrightarrow> run_ocr X image_path = Inl e"
    proof (cases "run_ocr X image_path")
      case (Inl e0)
      then show ?thesis by (simp add: process_image_try_def)
    next
      case (Inr tr)
      obtain extracted_text result where tr: "tr = (extracted_text, result)" by (cases tr)
      from body [of extracted_text result] obtain names where
        "process_image_body X extracted_text result = Inr names" by blast
      with Inr tr show ?thesis by (simp add: process_image_try_def)
    qed
  qed
  have order: "\<exists>name_info. extract_names extracted_text keywords = Inr name_info
              \<and> (name_info \<noteq> [] \<longrightarrow> process_image X image_path = Inr (Some name_info))
              \<and> (name_info = [] \<and> 7 \<le> length (extract_capital_words X result) \<longrightarrow>
                   process_image X image_path =
                     Inr (Some [(kw_prenom, extract_capital_words X result ! 5),
                                (kw_nom, extract_capital_words X result ! 6)]))
              \<and> (name_info = [] \<and> length (extract_capital_words X result) < 7 \<longrightarrow>
                   (\<exists>m. colon_scan X (split_on [10] [] extracted_text) [] = Inr m
                        \<and> process_image X image_path =
                            Inr (if m = [] then None else Some m)))"
    if ocr: "run_ocr X image_path = Inr (extracted_text, result)" for extracted_text result
  proof -
    from extract_names_ok [of extracted_text]
    obtain name_info where n: "extract_names extracted_text keywords = Inr name_info" by blast
    from colon_scan_ok [of X "split_on [10] [] extracted_text" "[]"]
    obtain m where m: "colon_scan X (split_on [10] [] extracted_text) [] = Inr m" by blast
    have a: "name_info \<noteq> [] \<longrightarrow> process_image X image_path = Inr (Some name_info)"
      using ocr n
      by (simp add: process_image_def process_image_try_def process_image_body_def)
    have b: "name_info = [] \<and> 7 \<le> length (extract_capital_words X result) \<longrightarrow>
               process_image X image_path =
                 Inr (Some [(kw_prenom, extract_capital_words X result ! 5),
                            (kw_nom, extract_capital_words X result ! 6)])"
      using ocr n
      by (simp add: process_image_def process_image_try_def process_image_body_def
                    py_index_def Let_def)
    have c: "name_info = [] \<and> length (extract_capital_words X result) < 7 \<longrightarrow>
               process_image X image_path = Inr (if m = [] then None else Some m)"
      using ocr n m
      by (auto simp: process_image_def process_image_try_def process_image_body_def Let_def)
    from n a b c m show ?thesis by blast
  qed
  from caught passed handler source order show ?thesis by blast
qed

theorem process_image_strategy_order_witness:
  "process_image_try demo (ustr ''d/z.png'') = Inl OcrFailure
   \<and> is_exception OcrFailure
   \<and> print_error demo (ustr ''d/z.png'') OcrFailure = None
   \<and> process_image demo (ustr ''d/z.png'') = Inr None
   \<and> run_ocr demo (ustr ''d/a.png'') = Inr (ustr ''Le candidat(e) Dupont Jean'', Document [])
   \<and> extract_names (ustr ''Le candidat(e) Dupont Jean'') keywords =
       Inr [(kw_candidat, ustr ''Dupont Jean'')]
   \<and> process_image demo (ustr ''d/a.png'') = Inr (Some [(kw_candidat, ustr ''Dupont Jean'')])
   \<and> process_image_try demo (ustr ''d/k.png'') = Inl KeyboardInterrupt
   \<and> \<not> is_exception KeyboardInterrupt
   \<and> process_image demo (ustr ''d/k.png'') = Inl KeyboardInterrupt"
proof -
  note t = process_image_strategy_order
  have tz: "process_image_try demo (ustr ''d/z.png'') = Inl OcrFailure"
    by (simp add: process_image_try_def demo_z_ocr)
  have ez: "is_exception OcrFailure" by (simp add: is_exception_def)
  have pz: "print_error demo (ustr ''d/z.png'') OcrFailure = None" by (simp add: demo_def)
  from t [of demo "ustr ''d/z.png''", THEN conjunct1, THEN spec, of OcrFailure] tz ez pz
  have z: "process_image demo (ustr ''d/z.png'') = Inr None" by simp
  from t [of demo "ustr ''d/a.png''", THEN conjunct2, THEN conjunct2, THEN conjunct2,
          THEN conjunct2, THEN spec, THEN spec, THEN mp, OF demo_a_ocr]
  obtain name_info where
    "extract_names (ustr ''Le candidat(e) Dupont Jean'') keywords = Inr name_info"
    "name_info \<noteq> [] \<longrightarrow> process_image demo (ustr ''d/a.png'') = Inr (Some name_info)"
    by blast
  with demo_a_keywords
  have a: "process_image demo (ustr ''d/a.png'') = Inr (Some [(kw_candidat, ustr ''Dupont Jean'')])"
    by simp
  have tk: "process_image_try demo (ustr ''d/k.png'') = Inl KeyboardInterrupt"
    by (simp add: process_image_try_def demo_k_ocr)
  have ek: "\<not> is_exception KeyboardInterrupt" by (simp add: is_exception_def)
  from t [of demo "ustr ''d/k.png''", THEN conjunct2, THEN conjunct1, THEN spec,
          of KeyboardInterrupt] tk ek
  have k: "process_image demo (ustr ''d/k.png'') = Inl KeyboardInterrupt" by simp
  from tz ez pz z demo_a_ocr demo_a_keywords a tk ek k show ?thesis by simp
qed

end
